theory Spec2Isabelle
  imports Main "HOL-Library.Word"
begin

unbundle bit_operations_syntax

section \<open>Data model of master.c\<close>

text \<open>
  GObject instances live on a heap and are referred to by address. The two global lists
  \<open>providers\<close> and \<open>clients\<close> of master.c are lists of such addresses (a GList holds
  \<open>gpointer\<close> data), so \<open>g_list_remove\<close> compares addresses, not contents.
\<close>

type_synonym ptr = nat
type_synonym DBusGConnection = nat
type_synonym GeoclueConnectivity = nat
type_synonym GcInterfaceFlags = "32 word"
type_synonym GeoclueResourceFlags = "32 word"
type_synonym GeoclueAccuracyLevel = int

text \<open>
  A GcMasterClient as master.c sees it: the GObject reference count, the sender and object
  path stored by \<open>gc_master_client_set_sender\<close> and \<open>gc_master_client_set_object_path\<close>
  (NULL until set), and whether the weak reference of \<open>add_client\<close>, whose callback is
  \<open>client_destroyed\<close>, is attached.
\<close>

record GcMasterClient =
  client_ref_count :: nat
  sender :: "string option"
  object_path :: "string option"
  weak_notify :: bool

text \<open>
  Modelled from the spec: the attributes of a Provider (section 3 of the specification):
  capability flags, accuracy level, update-capable flag and resource flags. The type
  GcMasterProvider is declared in master-provider.h, which is not part of the sources at hand.
\<close>

record provider_attrs =
  interfaces :: GcInterfaceFlags
  accuracy :: GeoclueAccuracyLevel
  update_capable :: bool
  resources :: GeoclueResourceFlags

record GcMasterProvider =
  provider_ref_count :: nat
  attrs :: provider_attrs

text \<open>What \<open>g_print\<close> and \<open>g_warning\<close> write, one constructor per call site.\<close>

datatype log_entry =
    Warn_bus_unavailable
  | Warn_dir_open_failed
  | Print_no_providers_found
  | Print_found_providers
  | Print_file string
  | Print_ignored
  | Warn_loading_failed string
  | Print_client_disconnected string
  | Warn_cannot_unregister string

text \<open>
  The state of the master process: the file-scope variables \<open>providers\<close>, \<open>clients\<close> and
  \<open>master_connection\<close>, the function-static \<open>serial\<close> of \<open>gc_iface_master_create\<close>, the
  fields \<open>connection\<close> and \<open>connectivity\<close> of the single GcMaster object, the heap of
  client and provider objects, the objects exported on D-Bus with their paths, whether
  the message filter and the match rule are installed, and the output written so far.
\<close>

record master_state =
  providers :: "ptr list"
  clients :: "ptr list"
  master_connection :: "DBusGConnection option"
  serial :: "32 word"
  connection :: "DBusGConnection option"
  connectivity :: "GeoclueConnectivity option"
  client_objs :: "ptr \<rightharpoonup> GcMasterClient"
  provider_objs :: "ptr \<rightharpoonup> GcMasterProvider"
  next_ptr :: ptr
  registered :: "ptr \<rightharpoonup> string"
  filter_added :: bool
  match_added :: bool
  printed :: "log_entry list"

text \<open>
  What the process finds around it at start-up: the result of \<open>dbus_g_bus_get\<close>
  (NULL on failure), of \<open>geoclue_connectivity_new\<close>, the configured provider directory,
  the names \<open>g_dir_read_name\<close> yields one after the other (or that \<open>g_dir_open\<close> fails),
  and \<open>gc_master_provider_new\<close> of master-provider.c, which yields NULL when a provider
  cannot be set up from its file.
\<close>

record environment =
  dbus_g_bus_get :: "DBusGConnection option"
  geoclue_connectivity_new :: "GeoclueConnectivity option"
  GEOCLUE_PROVIDERS_DIR :: string
  g_dir_open :: "string list option"
  gc_master_provider_new :: "string \<Rightarrow> GeoclueConnectivity option \<Rightarrow> provider_attrs option"

text \<open>A NameOwnerChanged candidate: whether \<open>dbus_message_is_signal\<close> accepts it, and the
  three string arguments when \<open>dbus_message_get_args\<close> can read them.\<close>

record DBusMessage =
  is_name_owner_changed :: bool
  args :: "(string \<times> string option \<times> string option) option"

definition initial_state :: master_state where
  "initial_state =
     \<lparr>providers = [], clients = [], master_connection = None, serial = 0,
      connection = None, connectivity = None, client_objs = Map.empty,
      provider_objs = Map.empty, next_ptr = 0, registered = Map.empty,
      filter_added = False, match_added = False, printed = []\<rparr>"

definition emit :: "log_entry \<Rightarrow> master_state \<Rightarrow> master_state" where
  "emit e st = st\<lparr>printed := printed st @ [e]\<rparr>"

section \<open>Library functions used by master.c\<close>

text \<open>\<open>printf\<close> with \<open>%d\<close>: the decimal digits, with a minus sign for a negative number.\<close>

definition digit_char :: "nat \<Rightarrow> char" where
  "digit_char d = char_of (48 + d)"

fun dec_nat :: "nat \<Rightarrow> string" where
  "dec_nat n = (if n < 10 then [digit_char n] else dec_nat (n div 10) @ [digit_char (n mod 10)])"

declare dec_nat.simps [simp del]

definition dec_int :: "int \<Rightarrow> string" where
  "dec_int i = (if i < 0 then CHR ''-'' # dec_nat (nat (- i)) else dec_nat (nat i))"

text \<open>\<open>strrchr\<close>: the part of the string from the last occurrence of the character on.\<close>

fun strrchr :: "string \<Rightarrow> char \<Rightarrow> string option" where
  "strrchr [] c = None"
| "strrchr (x # xs) c =
     (case strrchr xs c of
        Some r \<Rightarrow> Some r
      | None \<Rightarrow> if x = c then Some (x # xs) else None)"

definition g_build_filename :: "string \<Rightarrow> string \<Rightarrow> string" where
  "g_build_filename dir name = dir @ ''/'' @ name"

text \<open>
  \<open>g_object_unref\<close> on a provider: the count drops by one, and the object is freed when
  the last reference goes. An address that holds no live object is left alone.
\<close>

definition g_object_unref_provider :: "ptr \<Rightarrow> master_state \<Rightarrow> master_state" where
  "g_object_unref_provider p st =
     (case provider_objs st p of
        None \<Rightarrow> st
      | Some ob \<Rightarrow>
          if provider_ref_count ob \<le> 1
          then st\<lparr>provider_objs := (provider_objs st)(p := None)\<rparr>
          else st\<lparr>provider_objs :=
                   (provider_objs st)(p \<mapsto> ob\<lparr>provider_ref_count := provider_ref_count ob - 1\<rparr>)\<rparr>)"

definition gc_master_client_get_sender :: "master_state \<Rightarrow> ptr \<Rightarrow> string option" where
  "gc_master_client_get_sender st c =
     (case client_objs st c of None \<Rightarrow> None | Some ob \<Rightarrow> sender ob)"

definition gc_master_client_get_object_path :: "master_state \<Rightarrow> ptr \<Rightarrow> string option" where
  "gc_master_client_get_object_path st c =
     (case client_objs st c of None \<Rightarrow> None | Some ob \<Rightarrow> object_path ob)"

definition dbus_g_connection_unregister_g_object :: "ptr \<Rightarrow> master_state \<Rightarrow> master_state" where
  "dbus_g_connection_unregister_g_object c st = st\<lparr>registered := (registered st)(c := None)\<rparr>"

section \<open>The functions of master.c\<close>

definition add_client :: "ptr \<Rightarrow> master_state \<Rightarrow> master_state" where
  "add_client client st =
     (let st1 = st\<lparr>clients := client # clients st\<rparr>
      in case client_objs st1 client of
           None \<Rightarrow> st1
         | Some ob \<Rightarrow> st1\<lparr>client_objs := (client_objs st1)(client \<mapsto> ob\<lparr>weak_notify := True\<rparr>)\<rparr>)"

text \<open>
  The body of the \<open>if\<close> in \<open>client_destroyed\<close>: one \<open>g_object_unref\<close> for each element of
  \<open>providers\<close> in list order, then the list is freed and the variable set to NULL.
\<close>

definition unref_all_providers :: "master_state \<Rightarrow> master_state" where
  "unref_all_providers st = (fold g_object_unref_provider (providers st) st)\<lparr>providers := []\<rparr>"

definition client_destroyed :: "ptr \<Rightarrow> master_state \<Rightarrow> master_state" where
  "client_destroyed old_client st =
     (let st1 = st\<lparr>clients := remove1 old_client (clients st)\<rparr>
      in if clients st1 = [] \<and> providers st1 \<noteq> [] then unref_all_providers st1 else st1)"

text \<open>
  \<open>g_object_unref\<close> on a client. When the last reference goes the object is finalized:
  the weak-reference callback \<open>client_destroyed\<close> runs if \<open>add_client\<close> attached it, and
  the object is freed.
\<close>

definition g_object_unref_client :: "ptr \<Rightarrow> master_state \<Rightarrow> master_state" where
  "g_object_unref_client c st =
     (case client_objs st c of
        None \<Rightarrow> st
      | Some ob \<Rightarrow>
          if client_ref_count ob \<le> 1
          then (let st1 = (if weak_notify ob then client_destroyed c st else st)
                in st1\<lparr>client_objs := (client_objs st1)(c := None)\<rparr>)
          else st\<lparr>client_objs :=
                   (client_objs st)(c \<mapsto> ob\<lparr>client_ref_count := client_ref_count ob - 1\<rparr>)\<rparr>)"

fun find_client_loop :: "master_state \<Rightarrow> string \<Rightarrow> ptr list \<Rightarrow> ptr option" where
  "find_client_loop st sndr [] = None"
| "find_client_loop st sndr (client # l) =
     (case gc_master_client_get_sender st client of
        None \<Rightarrow> find_client_loop st sndr l
      | Some client_sender \<Rightarrow>
          if client_sender = sndr then Some client else find_client_loop st sndr l)"

definition find_client_by_sender :: "master_state \<Rightarrow> string \<Rightarrow> ptr option" where
  "find_client_by_sender st sndr = find_client_loop st sndr (clients st)"

definition nonempty_string :: "string option \<Rightarrow> bool" where
  "nonempty_string s = (case s of None \<Rightarrow> False | Some t \<Rightarrow> t \<noteq> [])"

text \<open>The filter returns \<open>DBUS_HANDLER_RESULT_NOT_YET_HANDLED\<close> on every path, so only the
  state it leaves is modelled.\<close>

definition name_owner_changed_filter :: "DBusMessage \<Rightarrow> master_state \<Rightarrow> master_state" where
  "name_owner_changed_filter message st =
     (if \<not> is_name_owner_changed message then st
      else case args message of
        None \<Rightarrow> st
      | Some (name, old_owner, new_owner) \<Rightarrow>
          if nonempty_string old_owner \<and> \<not> nonempty_string new_owner
          then (case find_client_by_sender st name of
                  None \<Rightarrow> st
                | Some client \<Rightarrow>
                    (let st1 = emit (Print_client_disconnected name) st;
                         object_path = gc_master_client_get_object_path st1 client;
                         st2 = (if object_path \<noteq> None \<and> master_connection st1 \<noteq> None
                                then dbus_g_connection_unregister_g_object client st1
                                else if object_path \<noteq> None \<and> master_connection st1 = None
                                then emit (Warn_cannot_unregister name) st1
                                else st1)
                     in g_object_unref_client client st2))
          else st)"

definition GEOCLUE_MASTER_PATH :: string where
  "GEOCLUE_MASTER_PATH = ''/org/freedesktop/Geoclue/Master/client''"

text \<open>
  \<open>gc_iface_master_create\<close>: the caller's sender comes from the method invocation context.
  The \<open>guint32\<close> serial is printed with \<open>%d\<close>, that is as a signed 32-bit number, and then
  incremented. The object is exported only if the master has a connection. The path is
  what \<open>dbus_g_method_return\<close> sends back.
\<close>

definition gc_iface_master_create :: "string option \<Rightarrow> master_state \<Rightarrow> string \<times> master_state" where
  "gc_iface_master_create ctx_sender st =
     (let path = GEOCLUE_MASTER_PATH @ dec_int (sint (serial st));
          st1 = st\<lparr>serial := serial st + 1\<rparr>;
          client = next_ptr st1;
          st2 = st1\<lparr>client_objs := (client_objs st1)(client \<mapsto>
                      \<lparr>client_ref_count = 1, sender = ctx_sender,
                       object_path = Some path, weak_notify = False\<rparr>),
                    next_ptr := Suc client\<rparr>;
          st3 = (case connection st2 of
                   None \<Rightarrow> st2
                 | Some conn \<Rightarrow> st2\<lparr>registered := (registered st2)(client \<mapsto> path)\<rparr>)
      in (path, add_client client st3))"

definition gc_master_add_new_provider :: "environment \<Rightarrow> string \<Rightarrow> master_state \<Rightarrow> master_state" where
  "gc_master_add_new_provider env filename st =
     (case gc_master_provider_new env filename (connectivity st) of
        None \<Rightarrow> emit (Warn_loading_failed filename) st
      | Some a \<Rightarrow>
          (let provider = next_ptr st
           in st\<lparr>provider_objs := (provider_objs st)(provider \<mapsto>
                      \<lparr>provider_ref_count = 1, attrs = a\<rparr>),
                 next_ptr := Suc provider,
                 providers := provider # providers st\<rparr>))"

definition PROVIDER_EXTENSION :: string where
  "PROVIDER_EXTENSION = ''.provider''"

fun load_providers_loop :: "environment \<Rightarrow> string list \<Rightarrow> master_state \<Rightarrow> master_state" where
  "load_providers_loop env [] st = st"
| "load_providers_loop env (filename # rest) st =
     (let st1 = emit (Print_file filename) st;
          ext = strrchr filename CHR ''.''
      in if ext = None \<or> ext \<noteq> Some PROVIDER_EXTENSION
         then load_providers_loop env rest (emit Print_ignored st1)
         else load_providers_loop env rest
                (gc_master_add_new_provider env
                   (g_build_filename (GEOCLUE_PROVIDERS_DIR env) filename) st1))"

definition gc_master_load_providers :: "environment \<Rightarrow> master_state \<Rightarrow> master_state" where
  "gc_master_load_providers env st =
     (case g_dir_open env of
        None \<Rightarrow> emit Warn_dir_open_failed st
      | Some names \<Rightarrow>
          load_providers_loop env names
            (emit (if names = [] then Print_no_providers_found else Print_found_providers) st))"

definition gc_master_init :: "environment \<Rightarrow> master_state \<Rightarrow> master_state" where
  "gc_master_init env st =
     (case dbus_g_bus_get env of
        None \<Rightarrow> emit Warn_bus_unavailable (st\<lparr>connection := None\<rparr>)
      | Some conn \<Rightarrow>
          gc_master_load_providers env
            (st\<lparr>connection := Some conn, master_connection := Some conn,
                filter_added := True, match_added := True,
                connectivity := geoclue_connectivity_new env\<rparr>))"

text \<open>
  Modelled from the spec: \<open>gc_master_provider_is_good\<close> of master-provider.c, which is not
  part of the sources at hand. By section 4.2 a provider qualifies iff its capability flags
  are a superset of the requested flags, its accuracy is at least the minimum, it is
  update-capable if that is required, and its resource flags are a subset of the allowed
  flags.
\<close>

definition gc_master_provider_is_good ::
  "GcMasterProvider \<Rightarrow> GcInterfaceFlags \<Rightarrow> GeoclueAccuracyLevel \<Rightarrow> bool \<Rightarrow> GeoclueResourceFlags \<Rightarrow> bool" where
  "gc_master_provider_is_good provider iface_type min_accuracy can_update allowed =
     ((interfaces (attrs provider) AND iface_type) = iface_type \<and>
      min_accuracy \<le> accuracy (attrs provider) \<and>
      (can_update \<longrightarrow> update_capable (attrs provider)) \<and>
      (resources (attrs provider) AND NOT allowed) = 0)"

definition provider_is_good_at ::
  "master_state \<Rightarrow> ptr \<Rightarrow> GcInterfaceFlags \<Rightarrow> GeoclueAccuracyLevel \<Rightarrow> bool \<Rightarrow> GeoclueResourceFlags \<Rightarrow> bool" where
  "provider_is_good_at st p iface_type min_accuracy can_update allowed =
     (case provider_objs st p of
        None \<Rightarrow> False
      | Some provider \<Rightarrow> gc_master_provider_is_good provider iface_type min_accuracy can_update allowed)"

fun get_providers_loop ::
  "master_state \<Rightarrow> GcInterfaceFlags \<Rightarrow> GeoclueAccuracyLevel \<Rightarrow> bool \<Rightarrow> GeoclueResourceFlags \<Rightarrow>
   ptr list \<Rightarrow> ptr list \<Rightarrow> ptr list" where
  "get_providers_loop st iface_type min_accuracy can_update allowed [] p = p"
| "get_providers_loop st iface_type min_accuracy can_update allowed (provider # l) p =
     get_providers_loop st iface_type min_accuracy can_update allowed l
       (if provider_is_good_at st provider iface_type min_accuracy can_update allowed
        then provider # p else p)"

text \<open>The \<open>error\<close> out-parameter is never written, so the result is the list alone.\<close>

definition gc_master_get_providers ::
  "master_state \<Rightarrow> GcInterfaceFlags \<Rightarrow> GeoclueAccuracyLevel \<Rightarrow> bool \<Rightarrow> GeoclueResourceFlags \<Rightarrow> ptr list" where
  "gc_master_get_providers st iface_type min_accuracy can_update allowed =
     (if providers st = [] then []
      else get_providers_loop st iface_type min_accuracy can_update allowed (providers st) [])"

section \<open>Operations, observations and well-formed states\<close>

text \<open>The number of references held on a provider: 0 once it is freed.\<close>

definition provider_refs :: "master_state \<Rightarrow> ptr \<Rightarrow> nat" where
  "provider_refs st p =
     (case provider_objs st p of None \<Rightarrow> 0 | Some ob \<Rightarrow> provider_ref_count ob)"

definition provider_attrs_at :: "master_state \<Rightarrow> ptr \<Rightarrow> provider_attrs option" where
  "provider_attrs_at st p = map_option attrs (provider_objs st p)"

text \<open>
  What master.c maintains about its two lists. Every tracked client is a live object,
  allocated earlier, on which the master holds the only reference (the one of
  \<open>g_object_new\<close>), with its object path set and the weak reference attached, and is
  tracked once. Every registered provider is a live object, allocated earlier and listed
  once. The filter is installed only after \<open>master_connection\<close> is set.
\<close>

definition clients_ok :: "master_state \<Rightarrow> bool" where
  "clients_ok st =
     (distinct (clients st) \<and>
      (\<forall>c \<in> set (clients st).
         c < next_ptr st \<and>
         (case client_objs st c of
            None \<Rightarrow> False
          | Some ob \<Rightarrow> client_ref_count ob = 1 \<and> weak_notify ob \<and> object_path ob \<noteq> None)))"

definition providers_ok :: "master_state \<Rightarrow> bool" where
  "providers_ok st =
     (distinct (providers st) \<and>
      (\<forall>p \<in> set (providers st). p < next_ptr st \<and> 1 \<le> provider_refs st p))"

definition wf_state :: "master_state \<Rightarrow> bool" where
  "wf_state st =
     (clients_ok st \<and> providers_ok st \<and> (filter_added st \<longrightarrow> master_connection st \<noteq> None))"

text \<open>
  What can happen to a running master: a Create call arrives with the caller's sender,
  the last reference on a client object is dropped, or the bus delivers a message, which
  reaches \<open>name_owner_changed_filter\<close> if \<open>gc_master_init\<close> installed it.
\<close>

datatype operation =
    Create "string option"
  | Destroy ptr
  | Deliver DBusMessage

fun apply_op :: "operation \<Rightarrow> master_state \<Rightarrow> master_state" where
  "apply_op (Create ctx_sender) st = snd (gc_iface_master_create ctx_sender st)"
| "apply_op (Destroy c) st = g_object_unref_client c st"
| "apply_op (Deliver message) st =
     (if filter_added st then name_owner_changed_filter message st else st)"

fun run_ops :: "operation list \<Rightarrow> master_state \<Rightarrow> master_state" where
  "run_ops [] st = st"
| "run_ops (x # xs) st = run_ops xs (apply_op x st)"

text \<open>The states after each operation of a sequence, in order.\<close>

fun states_after :: "operation list \<Rightarrow> master_state \<Rightarrow> master_state list" where
  "states_after [] st = []"
| "states_after (x # xs) st = apply_op x st # states_after xs (apply_op x st)"

text \<open>A sequence of session creations and destructions: every destruction is of a session
  tracked at that moment.\<close>

fun create_destroy_ops :: "operation list \<Rightarrow> master_state \<Rightarrow> bool" where
  "create_destroy_ops [] st = True"
| "create_destroy_ops (Create ctx_sender # xs) st =
     create_destroy_ops xs (apply_op (Create ctx_sender) st)"
| "create_destroy_ops (Destroy c # xs) st =
     (c \<in> set (clients st) \<and> create_destroy_ops xs (apply_op (Destroy c) st))"
| "create_destroy_ops (Deliver message # xs) st = False"

text \<open>Consecutive Create calls, one per sender, with the handles they return.\<close>

fun create_sessions :: "string option list \<Rightarrow> master_state \<Rightarrow> string list \<times> master_state" where
  "create_sessions [] st = ([], st)"
| "create_sessions (s # ss) st =
     (let (path, st1) = gc_iface_master_create s st;
          (paths, st2) = create_sessions ss st1
      in (path # paths, st2))"

text \<open>The notification that the peer with the unique name \<open>name\<close> has left the bus.\<close>

definition peer_vanished :: "string \<Rightarrow> DBusMessage" where
  "peer_vanished name =
     \<lparr>is_name_owner_changed = True, args = Some (name, Some name, Some [])\<rparr>"

definition has_provider_extension :: "string \<Rightarrow> bool" where
  "has_provider_extension filename = (strrchr filename CHR ''.'' = Some PROVIDER_EXTENSION)"

text \<open>The files of a directory listing that \<open>gc_master_load_providers\<close> hands to
  \<open>gc_master_add_new_provider\<close>, as full names, and how each of them fares.\<close>

definition provider_files :: "environment \<Rightarrow> string list \<Rightarrow> string list" where
  "provider_files env names =
     map (g_build_filename (GEOCLUE_PROVIDERS_DIR env)) (filter has_provider_extension names)"

definition loaded_attrs ::
  "environment \<Rightarrow> GeoclueConnectivity option \<Rightarrow> string list \<Rightarrow> provider_attrs list" where
  "loaded_attrs env conn names =
     concat (map (\<lambda>f. case gc_master_provider_new env f conn of
                        None \<Rightarrow> [] | Some a \<Rightarrow> [a])
                 (provider_files env names))"

definition failed_files ::
  "environment \<Rightarrow> GeoclueConnectivity option \<Rightarrow> string list \<Rightarrow> string list" where
  "failed_files env conn names =
     filter (\<lambda>f. gc_master_provider_new env f conn = None) (provider_files env names)"

definition is_warning :: "log_entry \<Rightarrow> bool" where
  "is_warning e =
     (case e of
        Warn_bus_unavailable \<Rightarrow> True
      | Warn_dir_open_failed \<Rightarrow> True
      | Warn_loading_failed f \<Rightarrow> True
      | Warn_cannot_unregister n \<Rightarrow> True
      | _ \<Rightarrow> False)"

section \<open>A concrete installation\<close>

text \<open>
  A provider directory with three descriptors that load, one that does not, and a file
  that is no descriptor, on a bus that is available.
\<close>

definition gps_attrs :: provider_attrs where
  "gps_attrs = \<lparr>interfaces = 3, accuracy = 6, update_capable = True, resources = 2\<rparr>"

definition net_attrs :: provider_attrs where
  "net_attrs = \<lparr>interfaces = 1, accuracy = 3, update_capable = False, resources = 1\<rparr>"

definition cell_attrs :: provider_attrs where
  "cell_attrs = \<lparr>interfaces = 5, accuracy = 4, update_capable = True, resources = 4\<rparr>"

definition example_provider_new :: "string \<Rightarrow> GeoclueConnectivity option \<Rightarrow> provider_attrs option" where
  "example_provider_new f conn =
     (if f = ''/p/gps.provider'' then Some gps_attrs
      else if f = ''/p/net.provider'' then Some net_attrs
      else if f = ''/p/cell.provider'' then Some cell_attrs
      else None)"

definition example_env :: environment where
  "example_env =
     \<lparr>dbus_g_bus_get = Some 1, geoclue_connectivity_new = Some 2,
      GEOCLUE_PROVIDERS_DIR = ''/p'',
      g_dir_open = Some [''gps.provider'', ''README'', ''bad.provider'', ''net.provider'',
                         ''cell.provider''],
      gc_master_provider_new = example_provider_new\<rparr>"

text \<open>The state in which \<open>gc_master_init\<close> calls \<open>gc_master_load_providers\<close> here.\<close>

definition before_load :: master_state where
  "before_load =
     initial_state\<lparr>connection := Some 1, master_connection := Some 1,
       filter_added := True, match_added := True, connectivity := Some 2\<rparr>"

definition started :: master_state where
  "started = gc_master_init example_env initial_state"

definition one_session :: master_state where
  "one_session = apply_op (Create (Some '':1.42'')) started"

definition two_sessions_one_peer :: master_state where
  "two_sessions_one_peer = apply_op (Create (Some '':1.42'')) one_session"

definition create_destroy_create :: "operation list" where
  "create_destroy_create = [Create (Some '':1.42''), Destroy 3, Create (Some '':1.43'')]"

text \<open>The state after the only session has gone, and what happens later.\<close>

definition idle_again :: master_state where
  "idle_again = run_ops [Create (Some '':1.42''), Destroy 3] started"

definition later_ops :: "operation list" where
  "later_ops = [Create (Some '':1.43''), Deliver (peer_vanished '':1.43''), Create None]"

definition after_first_notice :: master_state where
  "after_first_notice = name_owner_changed_filter (peer_vanished '':1.42'') two_sessions_one_peer"

text \<open>The path \<open>gc_iface_master_create\<close> prints for a value of the serial.\<close>

definition handle_of :: "32 word \<Rightarrow> string" where
  "handle_of w = GEOCLUE_MASTER_PATH @ dec_int (sint w)"

text \<open>The handles returned by the Create calls of a sequence of operations, in order.\<close>

fun handles_returned :: "operation list \<Rightarrow> master_state \<Rightarrow> string list" where
  "handles_returned [] st = []"
| "handles_returned (Create ctx_sender # xs) st =
     fst (gc_iface_master_create ctx_sender st) #
       handles_returned xs (apply_op (Create ctx_sender) st)"
| "handles_returned (Destroy c # xs) st = handles_returned xs (apply_op (Destroy c) st)"
| "handles_returned (Deliver message # xs) st =
     handles_returned xs (apply_op (Deliver message) st)"

section \<open>The concrete installation, evaluated\<close>

lemmas example_defs = started_def example_env_def gc_master_init_def initial_state_def
  gc_master_load_providers_def emit_def PROVIDER_EXTENSION_def gc_master_add_new_provider_def
  g_build_filename_def example_provider_new_def Let_def

lemma started_eq:
  "started =
     \<lparr>providers = [2, 1, 0], clients = [], master_connection = Some 1, serial = 0,
      connection = Some 1, connectivity = Some 2, client_objs = Map.empty,
      provider_objs = [0 \<mapsto> \<lparr>provider_ref_count = 1, attrs = gps_attrs\<rparr>,
                       1 \<mapsto> \<lparr>provider_ref_count = 1, attrs = net_attrs\<rparr>,
                       2 \<mapsto> \<lparr>provider_ref_count = 1, attrs = cell_attrs\<rparr>],
      next_ptr = 3, registered = Map.empty, filter_added = True, match_added = True,
      printed = [Print_found_providers, Print_file ''gps.provider'', Print_file ''README'',
                 Print_ignored, Print_file ''bad.provider'',
                 Warn_loading_failed ''/p/bad.provider'', Print_file ''net.provider'',
                 Print_file ''cell.provider'']\<rparr>"
  by (simp add: example_defs numeral_3_eq_3 numeral_2_eq_2)

section \<open>Session handles\<close>

subsection \<open>Decimal rendering is injective\<close>

lemma dec_nat_not_Nil: "dec_nat n \<noteq> []"
  by (subst dec_nat.simps) simp

lemma digit_char_inj: "a < 10 \<Longrightarrow> b < 10 \<Longrightarrow> digit_char a = digit_char b \<Longrightarrow> a = b"
  by (simp add: digit_char_def char_of_quasi_inj)

lemma digit_char_not_minus: "d < 10 \<Longrightarrow> digit_char d \<noteq> CHR ''-''"
proof
  assume d: "d < 10" and eq: "digit_char d = CHR ''-''"
  from eq have "(of_char (char_of (48 + d)) :: nat) = of_char CHR ''-''"
    by (simp add: digit_char_def)
  with d show False by (simp add: of_char_of)
qed

lemma dec_nat_no_minus: "CHR ''-'' \<notin> set (dec_nat n)"
proof (induction n rule: dec_nat.induct)
  case (1 n)
  show ?case
  proof (cases "n < 10")
    case True
    then show ?thesis
      using digit_char_not_minus [of n] by (subst dec_nat.simps) auto
  next
    case False
    then show ?thesis
      using 1 digit_char_not_minus [of "n mod 10"] by (subst dec_nat.simps) auto
  qed
qed

lemma dec_nat_inj: "dec_nat m = dec_nat n \<Longrightarrow> m = n"
proof (induction m arbitrary: n rule: dec_nat.induct)
  case (1 m)
  note eq = \<open>dec_nat m = dec_nat n\<close>
  show ?case
  proof (cases "m < 10")
    case m: True
    show ?thesis
    proof (cases "n < 10")
      case True
      with m eq show ?thesis
        by (simp add: dec_nat.simps [of m] dec_nat.simps [of n] digit_char_inj)
    next
      case False
      with m eq have "dec_nat (n div 10) = []"
        by (simp add: dec_nat.simps [of m] dec_nat.simps [of n])
      then show ?thesis by (simp add: dec_nat_not_Nil)
    qed
  next
    case m: False
    show ?thesis
    proof (cases "n < 10")
      case True
      with m eq have "dec_nat (m div 10) = []"
        by (simp add: dec_nat.simps [of m] dec_nat.simps [of n])
      then show ?thesis by (simp add: dec_nat_not_Nil)
    next
      case False
      with m eq have tl: "dec_nat (m div 10) = dec_nat (n div 10)"
        and hd: "digit_char (m mod 10) = digit_char (n mod 10)"
        by (simp_all add: dec_nat.simps [of m] dec_nat.simps [of n])
      from m tl have "m div 10 = n div 10" by (rule "1.IH")
      moreover from hd have "m mod 10 = n mod 10" by (simp add: digit_char_inj)
      ultimately show ?thesis by (metis div_mult_mod_eq)
    qed
  qed
qed

lemma dec_int_inj: "dec_int i = dec_int j \<Longrightarrow> i = j"
proof -
  assume eq: "dec_int i = dec_int j"
  have hd_nat: "\<And>n. hd (dec_nat n) \<noteq> CHR ''-''"
    using dec_nat_no_minus dec_nat_not_Nil hd_in_set by metis
  show ?thesis
  proof (cases "i < 0")
    case i: True
    show ?thesis
    proof (cases "j < 0")
      case True
      with i eq have "nat (- i) = nat (- j)" by (simp add: dec_int_def dec_nat_inj)
      with i True show ?thesis by simp
    next
      case False
      with i eq have "hd (dec_nat (nat j)) = CHR ''-''"
        by (simp add: dec_int_def) (metis list.sel(1))
      with hd_nat show ?thesis by blast
    qed
  next
    case i: False
    show ?thesis
    proof (cases "j < 0")
      case True
      with i eq have "hd (dec_nat (nat i)) = CHR ''-''"
        by (simp add: dec_int_def)
      with hd_nat show ?thesis by blast
    next
      case False
      with i eq have "nat i = nat j" by (simp add: dec_int_def dec_nat_inj)
      with i False show ?thesis by simp
    qed
  qed
qed

subsection \<open>Handles of consecutive creations\<close>

lemma handle_of_inj: "handle_of v = handle_of w \<Longrightarrow> v = w"
  by (auto simp: handle_of_def dest!: dec_int_inj intro: signed_word_eqI)

lemma create_fst: "fst (gc_iface_master_create s st) = handle_of (serial st)"
  by (simp add: gc_iface_master_create_def handle_of_def Let_def)

lemma serial_add_client [simp]: "serial (add_client c st) = serial st"
  by (simp add: add_client_def Let_def split: option.splits)

lemma create_serial: "serial (snd (gc_iface_master_create s st)) = serial st + 1"
  by (simp add: gc_iface_master_create_def Let_def split: option.splits)

lemma create_sessions_paths:
  "fst (create_sessions ss st) = map (\<lambda>k. handle_of (serial st + of_nat k)) [0..<length ss]"
proof (induction ss arbitrary: st)
  case Nil
  show ?case by simp
next
  case (Cons s ss)
  have "fst (create_sessions (s # ss) st) =
          handle_of (serial st) # fst (create_sessions ss (snd (gc_iface_master_create s st)))"
    using create_fst [of s st] by (simp add: case_prod_beta Let_def)
  also have "\<dots> = handle_of (serial st) #
                   map (\<lambda>k. handle_of (serial st + 1 + of_nat k)) [0..<length ss]"
    by (simp add: Cons.IH create_serial)
  also have "\<dots> = map (\<lambda>k. handle_of (serial st + of_nat k)) (0 # map Suc [0..<length ss])"
    by (simp add: comp_def add.assoc)
  also have "0 # map Suc [0..<length ss] = [0..<length (s # ss)]"
    by (simp add: upt_conv_Cons map_Suc_upt del: upt_Suc)
  finally show ?case .
qed

lemma handles_inj_on:
  "n \<le> 2 ^ 32 \<Longrightarrow> inj_on (\<lambda>k. handle_of (w + of_nat k)) {0..<n}"
proof (rule inj_onI)
  fix j k
  assume n: "n \<le> 2 ^ 32" and j: "j \<in> {0..<n}" and k: "k \<in> {0..<n}"
    and eq: "handle_of (w + of_nat j) = handle_of (w + of_nat k)"
  from eq have "(of_nat j :: 32 word) = of_nat k"
    by (auto dest!: handle_of_inj)
  then have "take_bit 32 j = take_bit 32 k" by (simp add: word_of_nat_eq_iff)
  moreover from n j k have "j < 2 ^ 32" "k < 2 ^ 32" by auto
  ultimately show "j = k" by (simp add: take_bit_nat_eq_self)
qed

lemma digit_0: "digit_char 0 = CHR ''0''"
  unfolding digit_char_def by code_simp

lemma digit_1: "digit_char (Suc 0) = CHR ''1''"
  unfolding digit_char_def by code_simp

lemma handle_0: "handle_of 0 = ''/org/freedesktop/Geoclue/Master/client0''"
  by (simp add: handle_of_def GEOCLUE_MASTER_PATH_def dec_int_def dec_nat.simps digit_0)

lemma handle_1: "handle_of 1 = ''/org/freedesktop/Geoclue/Master/client1''"
  by (simp add: handle_of_def GEOCLUE_MASTER_PATH_def dec_int_def dec_nat.simps digit_1)

lemma digit_2: "digit_char 2 = CHR ''2''"
  unfolding digit_char_def by code_simp

lemma handle_2: "handle_of 2 = ''/org/freedesktop/Geoclue/Master/client2''"
  by (simp add: handle_of_def GEOCLUE_MASTER_PATH_def dec_int_def dec_nat.simps digit_2)

text \<open>
  C9. N consecutive calls of the creation operation, with N at most \<open>2 ^ 32\<close> so that the
  serial does not come round to a value already used, return N handles that are pairwise
  distinct. The handle of call number k is the fixed prefix followed by the decimal
  rendering of the serial at that call, which is k above the serial at the first call.
\<close>

theorem handles_pairwise_distinct:
  assumes "length senders \<le> 2 ^ 32"
  shows "distinct (fst (create_sessions senders st)) \<and>
         length (fst (create_sessions senders st)) = length senders \<and>
         (\<forall>k < length senders.
            fst (create_sessions senders st) ! k =
              GEOCLUE_MASTER_PATH @ dec_int (sint (serial st + of_nat k)))"
  using assms handles_inj_on [of "length senders" "serial st"]
  by (simp add: create_sessions_paths distinct_map handle_of_def)

theorem handles_pairwise_distinct_witness:
  "length [Some '':1.42'', None, Some '':1.7''] \<le> (2::nat) ^ 32 \<and>
   distinct (fst (create_sessions [Some '':1.42'', None, Some '':1.7''] initial_state)) \<and>
   fst (create_sessions [Some '':1.42'', None, Some '':1.7''] initial_state) =
     [''/org/freedesktop/Geoclue/Master/client0'',
      ''/org/freedesktop/Geoclue/Master/client1'',
      ''/org/freedesktop/Geoclue/Master/client2'']"
proof -
  have len: "length [Some '':1.42'', None, Some '':1.7''] \<le> (2::nat) ^ 32" by simp
  have paths: "fst (create_sessions [Some '':1.42'', None, Some '':1.7''] initial_state) =
     [''/org/freedesktop/Geoclue/Master/client0'',
      ''/org/freedesktop/Geoclue/Master/client1'',
      ''/org/freedesktop/Geoclue/Master/client2'']"
    by (subst create_sessions_paths)
       (simp add: upt_conv_Cons handle_0 handle_1 handle_2 initial_state_def del: upt_Suc)
  from handles_pairwise_distinct [OF len, of initial_state] len paths show ?thesis
    by blast
qed

text \<open>\<open>gc_iface_master_create\<close> in one step: the handle it returns and the state it leaves.\<close>

lemma create_eq:
  "gc_iface_master_create s st =
     (handle_of (serial st),
      st\<lparr>serial := serial st + 1,
         client_objs := (client_objs st)(next_ptr st \<mapsto>
            \<lparr>client_ref_count = 1, sender = s, object_path = Some (handle_of (serial st)),
             weak_notify = True\<rparr>),
         next_ptr := Suc (next_ptr st),
         registered := (if connection st = None then registered st
                        else (registered st)(next_ptr st \<mapsto> handle_of (serial st))),
         clients := next_ptr st # clients st\<rparr>)"
  by (cases "connection st")
     (simp_all add: gc_iface_master_create_def add_client_def handle_of_def Let_def)

lemma one_session_eq:
  "one_session =
     started\<lparr>serial := 1, clients := [3], next_ptr := 4,
       client_objs := [3 \<mapsto> \<lparr>client_ref_count = 1, sender = Some '':1.42'',
          object_path = Some ''/org/freedesktop/Geoclue/Master/client0'', weak_notify = True\<rparr>],
       registered := [3 \<mapsto> ''/org/freedesktop/Geoclue/Master/client0'']\<rparr>"
  by (simp add: one_session_def create_eq started_eq handle_0)

lemma two_sessions_one_peer_eq:
  "two_sessions_one_peer =
     started\<lparr>serial := 2, clients := [4, 3], next_ptr := 5,
       client_objs := [3 \<mapsto> \<lparr>client_ref_count = 1, sender = Some '':1.42'',
          object_path = Some ''/org/freedesktop/Geoclue/Master/client0'', weak_notify = True\<rparr>,
          4 \<mapsto> \<lparr>client_ref_count = 1, sender = Some '':1.42'',
          object_path = Some ''/org/freedesktop/Geoclue/Master/client1'', weak_notify = True\<rparr>],
       registered := [3 \<mapsto> ''/org/freedesktop/Geoclue/Master/client0'',
                      4 \<mapsto> ''/org/freedesktop/Geoclue/Master/client1'']\<rparr>"
  by (simp add: two_sessions_one_peer_def create_eq one_session_eq started_eq handle_1)

section \<open>Provider selection\<close>

lemma get_providers_loop_eq:
  "get_providers_loop st i a u al l p =
     rev (filter (\<lambda>x. provider_is_good_at st x i a u al) l) @ p"
  by (induction l arbitrary: p) simp_all

lemma gc_master_get_providers_eq:
  "gc_master_get_providers st i a u al =
     rev (filter (\<lambda>x. provider_is_good_at st x i a u al) (providers st))"
  by (simp add: gc_master_get_providers_def get_providers_loop_eq)

text \<open>
  C3. For every state of the registry and every request, \<open>gc_master_get_providers\<close> returns
  the registered providers that satisfy the four predicates and no others: a provider is in
  the result iff it is registered, its capability flags include the requested ones, its
  accuracy is at least the minimum, it can update when that is required, and its resource
  flags lie within the allowed ones. The result lists them in reverse registry order, and it
  is the empty list when the registry is empty or when nothing matches.
\<close>

theorem selection_exact:
  "(\<forall>p. p \<in> set (gc_master_get_providers st iface_type min_accuracy can_update allowed) \<longleftrightarrow>
        p \<in> set (providers st) \<and>
        (\<exists>ob. provider_objs st p = Some ob \<and>
              (interfaces (attrs ob) AND iface_type) = iface_type \<and>
              min_accuracy \<le> accuracy (attrs ob) \<and>
              (can_update \<longrightarrow> update_capable (attrs ob)) \<and>
              (resources (attrs ob) AND NOT allowed) = 0)) \<and>
   gc_master_get_providers st iface_type min_accuracy can_update allowed =
     rev (filter (\<lambda>p. provider_is_good_at st p iface_type min_accuracy can_update allowed)
            (providers st)) \<and>
   (providers st = [] \<longrightarrow>
      gc_master_get_providers st iface_type min_accuracy can_update allowed = []) \<and>
   ((\<forall>p \<in> set (providers st).
        \<not> provider_is_good_at st p iface_type min_accuracy can_update allowed) \<longrightarrow>
      gc_master_get_providers st iface_type min_accuracy can_update allowed = [])"
  by (auto simp: gc_master_get_providers_eq provider_is_good_at_def
       gc_master_provider_is_good_def filter_empty_conv split: option.splits)

theorem selection_exact_witness:
  "gc_master_get_providers started 1 4 True 6 = [0, 2] \<and>
   providers initial_state = [] \<and>
   gc_master_get_providers initial_state 1 4 True 6 = [] \<and>
   \<not> provider_is_good_at started 0 1 7 True 6 \<and>
   \<not> provider_is_good_at started 1 1 7 True 6 \<and>
   \<not> provider_is_good_at started 2 1 7 True 6 \<and>
   gc_master_get_providers started 1 7 True 6 = []"
proof -
  have empty: "providers initial_state = []"
    by (simp add: initial_state_def)
  have none: "\<forall>p \<in> set (providers started). \<not> provider_is_good_at started p 1 7 True 6"
    by (simp add: started_eq provider_is_good_at_def gc_master_provider_is_good_def
          gps_attrs_def net_attrs_def cell_attrs_def)
  have good: "rev (filter (\<lambda>p. provider_is_good_at started p 1 4 True 6) (providers started))
                = [0, 2]"
    by (simp add: started_eq provider_is_good_at_def gc_master_provider_is_good_def
          gps_attrs_def net_attrs_def cell_attrs_def)
  from selection_exact [of started 1 4 True 6] good
  have "gc_master_get_providers started 1 4 True 6 = [0, 2]" by simp
  moreover from selection_exact [of initial_state 1 4 True 6] empty
  have "gc_master_get_providers initial_state 1 4 True 6 = []" by blast
  moreover from selection_exact [of started 1 7 True 6] none
  have "gc_master_get_providers started 1 7 True 6 = []" by blast
  ultimately show ?thesis using empty none by (simp add: started_eq)
qed

section \<open>Notifications that are not a disappearance\<close>

text \<open>
  C6. A notification whose old owner is empty (or absent), or whose new owner is not empty,
  changes nothing: \<open>name_owner_changed_filter\<close> returns the state it was given, so no
  session is destroyed and the tracked sessions and the registry stay as they were.
\<close>

theorem irrelevant_notification_ignored:
  assumes "args message = Some (name, old_owner, new_owner)"
    and "old_owner = None \<or> old_owner = Some [] \<or> (\<exists>s. new_owner = Some s \<and> s \<noteq> [])"
  shows "name_owner_changed_filter message st = st"
  using assms by (auto simp: name_owner_changed_filter_def nonempty_string_def)

theorem irrelevant_notification_ignored_witness:
  "name_owner_changed_filter
     \<lparr>is_name_owner_changed = True, args = Some ('':1.42'', Some [], Some '':1.42'')\<rparr>
     one_session = one_session \<and>
   name_owner_changed_filter
     \<lparr>is_name_owner_changed = True, args = Some ('':1.42'', Some '':1.42'', Some '':1.50'')\<rparr>
     one_session = one_session \<and>
   clients one_session = [3]"
proof -
  have "name_owner_changed_filter
     \<lparr>is_name_owner_changed = True, args = Some ('':1.42'', Some [], Some '':1.42'')\<rparr>
     one_session = one_session"
    by (rule irrelevant_notification_ignored [where name = "'':1.42''" and old_owner = "Some []"
          and new_owner = "Some '':1.42''"]) simp_all
  moreover have "name_owner_changed_filter
     \<lparr>is_name_owner_changed = True, args = Some ('':1.42'', Some '':1.42'', Some '':1.50'')\<rparr>
     one_session = one_session"
    by (rule irrelevant_notification_ignored [where name = "'':1.42''"
          and old_owner = "Some '':1.42''" and new_owner = "Some '':1.50''"]) simp_all
  moreover have "clients one_session = [3]"
    by (simp add: one_session_eq)
  ultimately show ?thesis by blast
qed

section \<open>Releasing the registry\<close>

lemma unref_all_providers_empty:
  "providers st = [] \<Longrightarrow> unref_all_providers st = st"
  by (simp add: unref_all_providers_def)

lemma providers_unref_all [simp]: "providers (unref_all_providers st) = []"
  by (simp add: unref_all_providers_def)

lemma unref_provider_frame:
  "g_object_unref_provider p st =
     st\<lparr>provider_objs := provider_objs (g_object_unref_provider p st)\<rparr>"
  by (simp add: g_object_unref_provider_def split: option.splits)

lemma fold_unref_frame:
  "fold g_object_unref_provider ps st =
     st\<lparr>provider_objs := provider_objs (fold g_object_unref_provider ps st)\<rparr>"
proof (induction ps arbitrary: st)
  case Nil
  show ?case by simp
next
  case (Cons p ps)
  have "fold g_object_unref_provider (p # ps) st =
          fold g_object_unref_provider ps (g_object_unref_provider p st)" by simp
  also have "\<dots> = (g_object_unref_provider p st)
                     \<lparr>provider_objs := provider_objs (fold g_object_unref_provider (p # ps) st)\<rparr>"
    using Cons.IH [of "g_object_unref_provider p st"] by simp
  also have "\<dots> = st\<lparr>provider_objs := provider_objs (fold g_object_unref_provider (p # ps) st)\<rparr>"
    by (subst unref_provider_frame) simp
  finally show ?case .
qed

lemma unref_all_frame:
  "unref_all_providers st =
     st\<lparr>provider_objs := provider_objs (unref_all_providers st), providers := []\<rparr>"
  unfolding unref_all_providers_def by (subst fold_unref_frame) simp

lemma clients_unref_all [simp]: "clients (unref_all_providers st) = clients st"
  by (subst unref_all_frame) simp

text \<open>
  C7. Releasing the registry twice in a row leaves the state of releasing it once: the
  second run finds no provider, drops no reference and changes nothing, so no provider is
  released twice. Releasing an empty registry changes nothing. The same holds where
  the release sits in the code: once a destruction has left no tracked session, a further
  \<open>client_destroyed\<close> leaves the state as it is.
\<close>

theorem release_idempotent:
  "unref_all_providers (unref_all_providers st) = unref_all_providers st \<and>
   providers (unref_all_providers st) = [] \<and>
   (providers st = [] \<longrightarrow> unref_all_providers st = st) \<and>
   (remove1 c (clients st) = [] \<longrightarrow>
      client_destroyed c' (client_destroyed c st) = client_destroyed c st)"
  by (auto simp: unref_all_providers_empty client_destroyed_def Let_def)

theorem release_idempotent_witness:
  "providers started = [2, 1, 0] \<and>
   unref_all_providers (unref_all_providers started) = unref_all_providers started \<and>
   providers (unref_all_providers started) = [] \<and>
   provider_objs (unref_all_providers started) = Map.empty \<and>
   unref_all_providers initial_state = initial_state \<and>
   remove1 3 (clients one_session) = [] \<and>
   client_destroyed 4 (client_destroyed 3 one_session) = client_destroyed 3 one_session"
proof -
  have p: "providers started = [2, 1, 0]" by (simp add: started_eq)
  have e: "providers initial_state = []" by (simp add: initial_state_def)
  have r: "remove1 3 (clients one_session) = []" by (simp add: one_session_eq)
  have h: "provider_objs (unref_all_providers started) = Map.empty"
    by (simp add: started_eq unref_all_providers_def g_object_unref_provider_def)
  from release_idempotent [of started 0 0] release_idempotent [of initial_state 0 0]
    release_idempotent [of one_session 3 4] p e r h
  show ?thesis by simp
qed

section \<open>Frames: what each function leaves alone\<close>

lemma client_destroyed_cases:
  "client_destroyed c st =
     (if remove1 c (clients st) = [] \<and> providers st \<noteq> []
      then unref_all_providers (st\<lparr>clients := []\<rparr>)
      else st\<lparr>clients := remove1 c (clients st)\<rparr>)"
  by (simp add: client_destroyed_def Let_def)

lemma client_destroyed_frame:
  "client_destroyed c st =
     st\<lparr>clients := remove1 c (clients st),
        providers := providers (client_destroyed c st),
        provider_objs := provider_objs (client_destroyed c st)\<rparr>"
proof (cases "remove1 c (clients st) = [] \<and> providers st \<noteq> []")
  case True
  then show ?thesis
    unfolding client_destroyed_cases
    by (simp, subst unref_all_frame, simp)
next
  case False
  then show ?thesis
    unfolding client_destroyed_cases by auto
qed

lemma clients_client_destroyed [simp]:
  "clients (client_destroyed c st) = remove1 c (clients st)"
  by (subst client_destroyed_frame) simp

lemma client_objs_client_destroyed [simp]:
  "client_objs (client_destroyed c st) = client_objs st"
  by (subst client_destroyed_frame) simp

lemma next_ptr_client_destroyed [simp]:
  "next_ptr (client_destroyed c st) = next_ptr st"
  by (subst client_destroyed_frame) simp

lemma serial_client_destroyed [simp]:
  "serial (client_destroyed c st) = serial st"
  by (subst client_destroyed_frame) simp

lemma registered_client_destroyed [simp]:
  "registered (client_destroyed c st) = registered st"
  by (subst client_destroyed_frame) simp

lemma connection_client_destroyed [simp]:
  "master_connection (client_destroyed c st) = master_connection st"
  "filter_added (client_destroyed c st) = filter_added st"
  by (subst client_destroyed_frame, simp)+

lemma providers_client_destroyed_empty:
  "providers st = [] \<Longrightarrow> client_destroyed c st = st\<lparr>clients := remove1 c (clients st)\<rparr>"
  by (simp add: client_destroyed_cases)

lemma client_destroyed_idle:
  "remove1 c (clients st) = [] \<Longrightarrow> providers (client_destroyed c st) = []"
  by (simp add: client_destroyed_cases)

lemma client_destroyed_busy:
  "remove1 c (clients st) \<noteq> [] \<Longrightarrow>
     client_destroyed c st = st\<lparr>clients := remove1 c (clients st)\<rparr>"
  by (simp add: client_destroyed_cases)

lemma providers_client_destroyed_cases:
  "providers (client_destroyed c st) = [] \<or>
   providers (client_destroyed c st) = providers st \<and>
   provider_objs (client_destroyed c st) = provider_objs st"
  by (simp add: client_destroyed_cases)

subsection \<open>References dropped by the release\<close>

lemma provider_refs_unref:
  "provider_refs (g_object_unref_provider x st) p =
     (if p = x then provider_refs st x - 1 else provider_refs st p)"
  by (simp add: provider_refs_def g_object_unref_provider_def split: option.splits)

lemma provider_objs_unref_other:
  "p \<noteq> x \<Longrightarrow> provider_objs (g_object_unref_provider x st) p = provider_objs st p"
  by (simp add: g_object_unref_provider_def split: option.splits)

lemma provider_refs_fold_unref:
  "distinct ps \<Longrightarrow>
     provider_refs (fold g_object_unref_provider ps st) p =
       (if p \<in> set ps then provider_refs st p - 1 else provider_refs st p)"
proof (induction ps arbitrary: st)
  case Nil
  show ?case by simp
next
  case (Cons x ps)
  then show ?case by (auto simp: provider_refs_unref)
qed

lemma provider_objs_fold_unref_other:
  "p \<notin> set ps \<Longrightarrow> provider_objs (fold g_object_unref_provider ps st) p = provider_objs st p"
  by (induction ps arbitrary: st) (simp_all add: provider_objs_unref_other)

lemma provider_refs_clients_update [simp]:
  "provider_refs (st\<lparr>clients := cs\<rparr>) p = provider_refs st p"
  by (simp add: provider_refs_def)

lemma provider_refs_providers_update [simp]:
  "provider_refs (st\<lparr>providers := ps\<rparr>) p = provider_refs st p"
  by (simp add: provider_refs_def)

lemma provider_refs_unref_all:
  "distinct (providers st) \<Longrightarrow>
     provider_refs (unref_all_providers st) p =
       (if p \<in> set (providers st) then provider_refs st p - 1 else provider_refs st p)"
  by (simp add: unref_all_providers_def provider_refs_fold_unref)

lemma provider_objs_unref_all_other:
  "p \<notin> set (providers st) \<Longrightarrow> provider_objs (unref_all_providers st) p = provider_objs st p"
  by (simp add: unref_all_providers_def provider_objs_fold_unref_other)

section \<open>Destroying sessions and releasing the registry\<close>

text \<open>
  C2. In \<open>client_destroyed\<close> the session is taken out of the tracked list before the list is
  tested for emptiness: the tracked list afterwards is the old one without the session, and
  when the session destroyed was the last one the release runs, although the list was not
  empty on entry. The release then drops exactly one reference of every registered provider,
  touches no other object and empties the registry. While another session remains nothing
  is released, and when the registry is already empty a destruction releases nothing
  again: only the tracked list changes.
\<close>

theorem last_session_releases_once:
  assumes "providers_ok st"
  shows "clients (client_destroyed c st) = remove1 c (clients st) \<and>
         (clients st = [c] \<longrightarrow>
            clients (client_destroyed c st) = [] \<and>
            providers (client_destroyed c st) = [] \<and>
            (\<forall>p \<in> set (providers st).
               Suc (provider_refs (client_destroyed c st) p) = provider_refs st p) \<and>
            (\<forall>p. p \<notin> set (providers st) \<longrightarrow>
               provider_objs (client_destroyed c st) p = provider_objs st p)) \<and>
         (remove1 c (clients st) \<noteq> [] \<longrightarrow>
            client_destroyed c st = st\<lparr>clients := remove1 c (clients st)\<rparr>) \<and>
         (providers st = [] \<longrightarrow>
            client_destroyed c st = st\<lparr>clients := remove1 c (clients st)\<rparr>)"
proof -
  have last: "Suc (provider_refs (client_destroyed c st) p) = provider_refs st p"
    if "clients st = [c]" and "p \<in> set (providers st)" for p
  proof -
    from that have ne: "providers st \<noteq> []" by auto
    from assms that have "1 \<le> provider_refs st p" and "distinct (providers st)"
      by (auto simp: providers_ok_def)
    with that ne show ?thesis
      by (simp add: client_destroyed_cases provider_refs_unref_all)
  qed
  have other: "provider_objs (client_destroyed c st) p = provider_objs st p"
    if "clients st = [c]" and "p \<notin> set (providers st)" for p
    using that by (simp add: client_destroyed_cases provider_objs_unref_all_other)
  show ?thesis
    using last other
    by (auto simp: client_destroyed_idle client_destroyed_busy providers_client_destroyed_empty)
qed

lemma one_session_providers_ok: "providers_ok one_session"
  by (simp add: providers_ok_def one_session_eq started_eq provider_refs_def)

theorem last_session_releases_once_witness:
  "providers_ok one_session \<and> clients one_session = [3] \<and>
   providers one_session = [2, 1, 0] \<and>
   provider_refs one_session 2 = 1 \<and>
   clients (client_destroyed 3 one_session) = [] \<and>
   providers (client_destroyed 3 one_session) = [] \<and>
   provider_refs (client_destroyed 3 one_session) 2 = 0 \<and>
   provider_refs (client_destroyed 3 one_session) 1 = 0 \<and>
   provider_refs (client_destroyed 3 one_session) 0 = 0 \<and>
   remove1 3 (clients two_sessions_one_peer) = [4] \<and>
   providers (client_destroyed 3 two_sessions_one_peer) = [2, 1, 0] \<and>
   client_destroyed 4 (client_destroyed 3 one_session) = client_destroyed 3 one_session"
proof -
  have c: "clients one_session = [3]" and p: "providers one_session = [2, 1, 0]"
    and r: "provider_refs one_session 2 = 1" "provider_refs one_session 1 = 1"
      "provider_refs one_session 0 = 1"
    by (simp_all add: one_session_eq started_eq provider_refs_def)
  have two: "providers_ok two_sessions_one_peer"
    "remove1 3 (clients two_sessions_one_peer) = [4]"
    "providers two_sessions_one_peer = [2, 1, 0]"
    by (simp_all add: providers_ok_def two_sessions_one_peer_eq started_eq provider_refs_def)
  have after: "providers_ok (client_destroyed 3 one_session)"
    "providers (client_destroyed 3 one_session) = []"
    "remove1 4 (clients (client_destroyed 3 one_session)) = clients (client_destroyed 3 one_session)"
    using c by (simp_all add: providers_ok_def client_destroyed_idle)
  from last_session_releases_once [OF one_session_providers_ok, of 3]
    last_session_releases_once [OF two(1), of 3]
    last_session_releases_once [OF after(1), of 4]
    one_session_providers_ok c p r two after
  show ?thesis by simp
qed

section \<open>Well-formed states are preserved\<close>

lemma wf_initial_state: "wf_state initial_state"
  by (simp add: wf_state_def clients_ok_def providers_ok_def initial_state_def)

lemma wf_emit [simp]: "wf_state (emit e st) = wf_state st"
  by (simp add: wf_state_def clients_ok_def providers_ok_def emit_def provider_refs_def)

lemma wf_unregister [simp]:
  "wf_state (dbus_g_connection_unregister_g_object c st) = wf_state st"
  by (simp add: wf_state_def clients_ok_def providers_ok_def provider_refs_def
        dbus_g_connection_unregister_g_object_def)

lemma wf_create: "wf_state st \<Longrightarrow> wf_state (snd (gc_iface_master_create s st))"
  by (auto simp: create_eq wf_state_def clients_ok_def providers_ok_def provider_refs_def
        less_Suc_eq split: option.splits)

lemma wf_add_new_provider:
  "wf_state st \<Longrightarrow> wf_state (gc_master_add_new_provider env f st)"
  by (cases "gc_master_provider_new env f (connectivity st)")
     (auto simp: gc_master_add_new_provider_def wf_state_def clients_ok_def providers_ok_def
        provider_refs_def emit_def Let_def less_Suc_eq split: option.splits)

lemma wf_load_providers_loop:
  "wf_state st \<Longrightarrow> wf_state (load_providers_loop env names st)"
  by (induction names arbitrary: st) (simp_all add: Let_def wf_add_new_provider)

lemma wf_load_providers: "wf_state st \<Longrightarrow> wf_state (gc_master_load_providers env st)"
  by (simp add: gc_master_load_providers_def wf_load_providers_loop split: option.splits)

lemma wf_init: "wf_state st \<Longrightarrow> wf_state (gc_master_init env st)"
proof (cases "dbus_g_bus_get env")
  case None
  assume "wf_state st"
  with None show ?thesis
    by (simp add: gc_master_init_def)
       (simp add: wf_state_def clients_ok_def providers_ok_def provider_refs_def)
next
  case (Some conn)
  assume "wf_state st"
  then have "wf_state (st\<lparr>connection := Some conn, master_connection := Some conn,
                filter_added := True, match_added := True,
                connectivity := geoclue_connectivity_new env\<rparr>)"
    by (simp add: wf_state_def clients_ok_def providers_ok_def provider_refs_def)
  with Some show ?thesis
    by (simp add: gc_master_init_def wf_load_providers)
qed

lemma providers_ok_client_destroyed:
  "providers_ok st \<Longrightarrow> providers_ok (client_destroyed c st)"
  using providers_client_destroyed_cases [of c st]
  by (auto simp: providers_ok_def provider_refs_def)

text \<open>Dropping the master's reference on a tracked session finalizes it.\<close>

lemma unref_tracked_client:
  assumes "wf_state st" and "c \<in> set (clients st)"
  shows "g_object_unref_client c st =
           (client_destroyed c st)\<lparr>client_objs := (client_objs st)(c := None)\<rparr>"
  using assms
  by (auto simp: g_object_unref_client_def wf_state_def clients_ok_def split: option.splits)

lemma wf_unref_client: "wf_state st \<Longrightarrow> wf_state (g_object_unref_client c st)"
proof -
  assume wf: "wf_state st"
  show ?thesis
  proof (cases "c \<in> set (clients st)")
    case True
    from wf have "providers_ok (client_destroyed c st)"
      by (simp add: wf_state_def providers_ok_client_destroyed)
    moreover from wf True have "clients_ok
        ((client_destroyed c st)\<lparr>client_objs := (client_objs st)(c := None)\<rparr>)"
      by (auto simp: wf_state_def clients_ok_def)
    ultimately show ?thesis
      using wf True
      by (simp add: unref_tracked_client)
         (simp add: wf_state_def providers_ok_def provider_refs_def)
  next
    case False
    from wf have pok: "providers_ok (client_destroyed c st)"
      by (simp add: wf_state_def providers_ok_client_destroyed)
    from False have rm: "remove1 c (clients st) = clients st"
      by (simp add: remove1_idem)
    from wf False rm have cok: "clients_ok
        ((client_destroyed c st)\<lparr>client_objs := (client_objs st)(c := None)\<rparr>)"
      by (auto simp: wf_state_def clients_ok_def)
    show ?thesis
    proof (cases "client_objs st c")
      case None
      with wf show ?thesis by (simp add: g_object_unref_client_def)
    next
      case (Some ob)
      with wf False pok cok show ?thesis
        by (auto simp: g_object_unref_client_def wf_state_def clients_ok_def providers_ok_def
              provider_refs_def Let_def)
    qed
  qed
qed

lemma wf_filter: "wf_state st \<Longrightarrow> wf_state (name_owner_changed_filter message st)"
  by (auto simp: name_owner_changed_filter_def Let_def wf_unref_client
        split: option.splits prod.splits)

lemma wf_apply_op: "wf_state st \<Longrightarrow> wf_state (apply_op x st)"
  by (cases x) (simp_all add: wf_create wf_unref_client wf_filter)

lemma wf_run_ops: "wf_state st \<Longrightarrow> wf_state (run_ops xs st)"
  by (induction xs arbitrary: st) (simp_all add: wf_apply_op)

lemma wf_started: "wf_state started"
  unfolding started_def by (intro wf_init wf_initial_state)

section \<open>The registry and the tracked sessions\<close>

lemma unref_all_fields [simp]:
  "next_ptr (unref_all_providers st) = next_ptr st"
  "client_objs (unref_all_providers st) = client_objs st"
  "serial (unref_all_providers st) = serial st"
  "registered (unref_all_providers st) = registered st"
  "connection (unref_all_providers st) = connection st"
  by (subst unref_all_frame, simp)+

lemma providers_unref_client_empty:
  "providers st = [] \<Longrightarrow> providers (g_object_unref_client c st) = []"
  by (simp add: g_object_unref_client_def providers_client_destroyed_empty Let_def
        split: option.splits)

lemma providers_filter_empty:
  "providers st = [] \<Longrightarrow> providers (name_owner_changed_filter message st) = []"
  by (simp add: name_owner_changed_filter_def Let_def providers_unref_client_empty emit_def
        dbus_g_connection_unregister_g_object_def split: option.splits prod.splits)

lemma providers_apply_op_empty:
  "providers st = [] \<Longrightarrow> providers (apply_op x st) = []"
  by (cases x) (simp_all add: create_eq providers_unref_client_empty providers_filter_empty)

lemma providers_run_ops_empty:
  "providers st = [] \<Longrightarrow> providers (run_ops xs st) = []"
  by (induction xs arbitrary: st) (simp_all add: providers_apply_op_empty)

lemma providers_states_after_empty:
  "providers st = [] \<Longrightarrow> s \<in> set (states_after xs st) \<Longrightarrow> providers s = []"
proof (induction xs arbitrary: st)
  case Nil
  then show ?case by simp
next
  case (Cons x xs)
  from Cons.prems(1) have e: "providers (apply_op x st) = []"
    by (rule providers_apply_op_empty)
  from Cons.prems(2) have "s = apply_op x st \<or> s \<in> set (states_after xs (apply_op x st))"
    by simp
  then show ?case using e Cons.IH [OF e] by blast
qed

lemma started_create: "snd (gc_iface_master_create (Some '':1.42'') started) = one_session"
  by (simp add: one_session_def)

lemma destroy_tracked_idle:
  assumes "wf_state st" and "c \<in> set (clients st)"
    and "providers (g_object_unref_client c st) \<noteq> []"
  shows "clients (g_object_unref_client c st) \<noteq> []"
proof
  assume "clients (g_object_unref_client c st) = []"
  with assms(1,2) have "remove1 c (clients st) = []"
    by (simp add: unref_tracked_client)
  then have "providers (client_destroyed c st) = []"
    by (rule client_destroyed_idle)
  with assms show False
    by (simp add: unref_tracked_client)
qed

text \<open>
  C1, as amended. From a well-formed state, after every operation of a sequence of session
  creations and destructions of tracked sessions, the registry is non-empty only if a
  session is tracked. The converse is not maintained: the registry is filled once, by
  \<open>gc_master_init\<close>, and nothing refills it after the last session has gone.
\<close>

theorem registry_nonempty_only_with_sessions:
  assumes "wf_state st" and "create_destroy_ops ops st"
  shows "\<forall>s \<in> set (states_after ops st). providers s \<noteq> [] \<longrightarrow> clients s \<noteq> []"
  using assms
proof (induction ops arbitrary: st)
  case Nil
  show ?case by simp
next
  case (Cons x xs)
  show ?case
  proof (cases x)
    case (Create ctx_sender)
    have "clients (apply_op x st) \<noteq> []"
      by (simp add: Create create_eq)
    moreover have "\<forall>s \<in> set (states_after xs (apply_op x st)). providers s \<noteq> [] \<longrightarrow> clients s \<noteq> []"
      using Cons.prems Create by (intro Cons.IH wf_apply_op) simp_all
    ultimately show ?thesis by simp
  next
    case (Destroy c)
    with Cons.prems have c: "c \<in> set (clients st)" by simp
    have "providers (apply_op x st) \<noteq> [] \<longrightarrow> clients (apply_op x st) \<noteq> []"
      using destroy_tracked_idle [OF Cons.prems(1) c] by (simp add: Destroy)
    moreover have "\<forall>s \<in> set (states_after xs (apply_op x st)). providers s \<noteq> [] \<longrightarrow> clients s \<noteq> []"
      using Cons.prems Destroy by (intro Cons.IH wf_apply_op) simp_all
    ultimately show ?thesis by simp
  next
    case (Deliver message)
    with Cons.prems show ?thesis by simp
  qed
qed

lemma after_create_destroy_create:
  "states_after create_destroy_create started =
     [one_session,
      (unref_all_providers (one_session\<lparr>clients := []\<rparr>))\<lparr>client_objs := Map.empty\<rparr>,
      snd (gc_iface_master_create (Some '':1.43'')
        ((unref_all_providers (one_session\<lparr>clients := []\<rparr>))\<lparr>client_objs := Map.empty\<rparr>))]"
  by (simp add: create_destroy_create_def started_create)
     (simp add: one_session_eq started_eq g_object_unref_client_def client_destroyed_cases)

theorem registry_nonempty_only_with_sessions_witness:
  "wf_state started \<and> create_destroy_ops create_destroy_create started \<and>
   map (\<lambda>s. (providers s, clients s)) (states_after create_destroy_create started) =
     [([2, 1, 0], [3]), ([], []), ([], [4])]"
proof -
  have ops: "create_destroy_ops create_destroy_create started"
    by (simp add: create_destroy_create_def started_create)
       (simp add: one_session_eq)
  have sts: "map (\<lambda>s. (providers s, clients s)) (states_after create_destroy_create started) =
     [([2, 1, 0], [3]), ([], []), ([], [4])]"
    by (simp add: after_create_destroy_create create_eq)
       (simp add: one_session_eq started_eq)
  from registry_nonempty_only_with_sessions [OF wf_started ops] wf_started ops sts
  show ?thesis by blast
qed

text \<open>
  The claim as written fails: after a session is created, destroyed and another one
  created, a session is tracked and the registry is empty.
\<close>

theorem registry_iff_sessions_counterexample:
  "wf_state started \<and> create_destroy_ops create_destroy_create started \<and>
   clients (last (states_after create_destroy_create started)) = [4] \<and>
   providers (last (states_after create_destroy_create started)) = [] \<and>
   \<not> (providers (last (states_after create_destroy_create started)) \<noteq> [] \<longleftrightarrow>
      clients (last (states_after create_destroy_create started)) \<noteq> [])"
proof -
  have ops: "create_destroy_ops create_destroy_create started"
    by (simp add: create_destroy_create_def started_create)
       (simp add: one_session_eq)
  have "clients (last (states_after create_destroy_create started)) = [4]"
    and "providers (last (states_after create_destroy_create started)) = []"
    by (simp_all add: after_create_destroy_create create_eq)
       (simp_all add: one_session_eq started_eq)
  with wf_started ops show ?thesis by simp
qed

section \<open>After the registry has been emptied\<close>

lemma serial_unref_client [simp]: "serial (g_object_unref_client c st) = serial st"
  by (simp add: g_object_unref_client_def Let_def split: option.splits)

lemma serial_filter [simp]: "serial (name_owner_changed_filter message st) = serial st"
  by (simp add: name_owner_changed_filter_def Let_def emit_def
        dbus_g_connection_unregister_g_object_def split: option.splits prod.splits)

lemma serial_apply_destroy [simp]: "serial (apply_op (Destroy c) st) = serial st"
  by simp

lemma serial_apply_deliver [simp]: "serial (apply_op (Deliver message) st) = serial st"
  by simp

lemma handles_returned_eq:
  "handles_returned xs st =
     map (\<lambda>k. handle_of (serial st + of_nat k)) [0..<length (handles_returned xs st)]"
proof (induction xs arbitrary: st)
  case Nil
  show ?case by simp
next
  case (Cons x xs)
  show ?case
  proof (cases x)
    case (Create ctx_sender)
    let ?st = "apply_op (Create ctx_sender) st"
    let ?n = "length (handles_returned xs ?st)"
    have "handles_returned (x # xs) st = handle_of (serial st) # handles_returned xs ?st"
      by (simp add: Create create_fst)
    also have "handles_returned xs ?st =
                 map (\<lambda>k. handle_of (serial st + 1 + of_nat k)) [0..<?n]"
      using Cons.IH [of ?st] by (simp add: create_serial)
    also have "handle_of (serial st) # map (\<lambda>k. handle_of (serial st + 1 + of_nat k)) [0..<?n] =
                 map (\<lambda>k. handle_of (serial st + of_nat k)) (0 # map Suc [0..<?n])"
      by (simp add: comp_def add.assoc)
    also have "0 # map Suc [0..<?n] = [0..<Suc ?n]"
      by (simp add: upt_conv_Cons map_Suc_upt del: upt_Suc)
    finally show ?thesis by (simp add: Create del: upt_Suc)
  next
    case (Destroy c)
    then show ?thesis
      using Cons.IH [of "apply_op (Destroy c) st"] by (simp del: apply_op.simps)
  next
    case (Deliver message)
    then show ?thesis
      using Cons.IH [of "apply_op (Deliver message) st"] by (simp del: apply_op.simps)
  qed
qed

lemma handles_returned_distinct:
  "length (handles_returned xs st) \<le> 2 ^ 32 \<Longrightarrow> distinct (handles_returned xs st)"
  by (subst handles_returned_eq)
     (simp add: distinct_map handles_inj_on [of "length (handles_returned xs st)" "serial st"])

text \<open>
  C10. Once the registry is empty it stays empty under every later operation: creating a
  session, dropping a session, and any message that reaches the filter. Every selection in
  a later state returns the empty list. Creation goes on working: a further call tracks
  a new session and returns the prefix followed by the serial as handle, and the handles
  returned along the way are pairwise distinct as long as the serial does not come round.
\<close>

theorem emptied_registry_stays_empty:
  assumes "providers st = []"
  shows "providers (run_ops ops st) = [] \<and>
         (\<forall>s \<in> set (states_after ops st).
            providers s = [] \<and>
            gc_master_get_providers s iface_type min_accuracy can_update allowed = []) \<and>
         gc_master_get_providers (run_ops ops st) iface_type min_accuracy can_update allowed = [] \<and>
         fst (gc_iface_master_create ctx_sender (run_ops ops st)) =
           GEOCLUE_MASTER_PATH @ dec_int (sint (serial (run_ops ops st))) \<and>
         clients (snd (gc_iface_master_create ctx_sender (run_ops ops st))) =
           next_ptr (run_ops ops st) # clients (run_ops ops st) \<and>
         providers (snd (gc_iface_master_create ctx_sender (run_ops ops st))) = [] \<and>
         (length (handles_returned ops st) \<le> 2 ^ 32 \<longrightarrow> distinct (handles_returned ops st))"
  using assms providers_states_after_empty [OF assms, of _ ops]
  by (auto simp: providers_run_ops_empty gc_master_get_providers_def create_eq handle_of_def
        handles_returned_distinct)

lemma providers_idle_again: "providers idle_again = []"
  by (simp add: idle_again_def started_create)
     (simp add: one_session_eq started_eq g_object_unref_client_def client_destroyed_cases)

theorem emptied_registry_stays_empty_witness:
  "providers idle_again = [] \<and>
   providers (run_ops later_ops idle_again) = [] \<and>
   gc_master_get_providers (run_ops later_ops idle_again) 1 0 False 7 = [] \<and>
   length (handles_returned later_ops idle_again) = 2 \<and>
   distinct (handles_returned later_ops idle_again)"
proof -
  have len: "length (handles_returned later_ops idle_again) = 2"
    by (simp add: later_ops_def del: apply_op.simps)
  from emptied_registry_stays_empty [OF providers_idle_again, of later_ops 1 0 False 7 None]
    providers_idle_again len
  show ?thesis by simp
qed

section \<open>Peers that leave the bus\<close>

lemma find_client_loop_Some:
  "find_client_loop st n l = Some c \<Longrightarrow>
     c \<in> set l \<and> gc_master_client_get_sender st c = Some n"
  by (induction l) (auto split: option.splits if_splits)

lemma find_client_loop_None:
  "(find_client_loop st n l = None) =
     (\<forall>x \<in> set l. gc_master_client_get_sender st x \<noteq> Some n)"
  by (induction l) (auto split: option.splits)

lemma find_client_loop_first:
  "\<forall>x \<in> set newer. gc_master_client_get_sender st x \<noteq> Some n \<Longrightarrow>
   gc_master_client_get_sender st c = Some n \<Longrightarrow>
     find_client_loop st n (newer @ c # older) = Some c"
  by (induction newer) (auto split: option.splits)

lemma filter_vanished_unknown:
  "find_client_by_sender st n = None \<Longrightarrow> name_owner_changed_filter (peer_vanished n) st = st"
  by (simp add: name_owner_changed_filter_def peer_vanished_def)

lemma filter_vanished_found:
  assumes wf: "wf_state st" and fa: "filter_added st" and n: "n \<noteq> []"
    and found: "find_client_by_sender st n = Some c"
  shows "name_owner_changed_filter (peer_vanished n) st =
           (client_destroyed c
              (st\<lparr>printed := printed st @ [Print_client_disconnected n],
                  registered := (registered st)(c := None)\<rparr>))
           \<lparr>client_objs := (client_objs st)(c := None)\<rparr>"
proof -
  from found have c: "c \<in> set (clients st)"
    by (auto simp: find_client_by_sender_def dest: find_client_loop_Some)
  with wf have path: "gc_master_client_get_object_path st c \<noteq> None"
    by (auto simp: wf_state_def clients_ok_def gc_master_client_get_object_path_def
          split: option.splits)
  from wf fa have conn: "master_connection st \<noteq> None"
    by (simp add: wf_state_def)
  let ?st2 = "st\<lparr>printed := printed st @ [Print_client_disconnected n],
                  registered := (registered st)(c := None)\<rparr>"
  from wf have wf2: "wf_state ?st2"
    by (simp add: wf_state_def clients_ok_def providers_ok_def provider_refs_def)
  from c have c2: "c \<in> set (clients ?st2)" by simp
  from path conn found n
  have "name_owner_changed_filter (peer_vanished n) st = g_object_unref_client c ?st2"
    by (auto simp: name_owner_changed_filter_def peer_vanished_def nonempty_string_def Let_def
          emit_def dbus_g_connection_unregister_g_object_def
          gc_master_client_get_object_path_def)
  also have "\<dots> = (client_destroyed c ?st2)\<lparr>client_objs := (client_objs ?st2)(c := None)\<rparr>"
    using wf2 c2 by (rule unref_tracked_client)
  finally show ?thesis by simp
qed

text \<open>
  C4, as amended. Let the filter be installed and the state be well-formed, and let a
  tracked session have the requester identity S, with no session tracked ahead of it (that
  is, created after it) having the same identity. Then the notification that S has left
  the bus destroys that session: the lookup finds it, it leaves the tracked list, it is
  unregistered from D-Bus and its object is freed, and every other tracked session stays
  tracked and untouched. If it was the only tracked session, the registry becomes empty.
\<close>

theorem disconnect_destroys_first_session:
  assumes "wf_state st" and "filter_added st" and "name \<noteq> []"
    and "clients st = newer @ c # older"
    and "\<forall>x \<in> set newer. gc_master_client_get_sender st x \<noteq> Some name"
    and "gc_master_client_get_sender st c = Some name"
  shows "find_client_by_sender st name = Some c \<and>
         clients (name_owner_changed_filter (peer_vanished name) st) = newer @ older \<and>
         c \<notin> set (clients (name_owner_changed_filter (peer_vanished name) st)) \<and>
         client_objs (name_owner_changed_filter (peer_vanished name) st) c = None \<and>
         registered (name_owner_changed_filter (peer_vanished name) st) c = None \<and>
         (\<forall>x \<in> set (newer @ older).
            client_objs (name_owner_changed_filter (peer_vanished name) st) x =
              client_objs st x) \<and>
         (clients st = [c] \<longrightarrow>
            clients (name_owner_changed_filter (peer_vanished name) st) = [] \<and>
            providers (name_owner_changed_filter (peer_vanished name) st) = [])"
proof -
  from assms(4-6) have found: "find_client_by_sender st name = Some c"
    by (simp add: find_client_by_sender_def find_client_loop_first)
  from assms(1,4) have d: "distinct (newer @ c # older)"
    by (simp add: wf_state_def clients_ok_def)
  then have rm: "remove1 c (newer @ c # older) = newer @ older"
    by (simp add: remove1_append)
  note eq = filter_vanished_found [OF assms(1-3) found]
  from d rm assms(4) have "clients (name_owner_changed_filter (peer_vanished name) st) = newer @ older"
    by (simp add: eq)
  moreover from d have "c \<notin> set (newer @ older)" by auto
  moreover have "client_objs (name_owner_changed_filter (peer_vanished name) st) c = None"
    by (simp add: eq)
  moreover have "registered (name_owner_changed_filter (peer_vanished name) st) c = None"
    by (simp add: eq)
  moreover from d have "\<forall>x \<in> set (newer @ older).
      client_objs (name_owner_changed_filter (peer_vanished name) st) x = client_objs st x"
    by (auto simp: eq)
  moreover have "providers (name_owner_changed_filter (peer_vanished name) st) = []"
    if "clients st = [c]"
    using that by (simp add: eq client_destroyed_cases del: clients_client_destroyed)
  moreover have "newer @ older = []" if "clients st = [c]"
    using that assms(4) by (cases newer) simp_all
  ultimately show ?thesis using found by simp
qed

lemma wf_one_session: "wf_state one_session"
  unfolding one_session_def by (intro wf_apply_op wf_started)

lemma wf_two_sessions_one_peer: "wf_state two_sessions_one_peer"
  unfolding two_sessions_one_peer_def by (intro wf_apply_op wf_one_session)

theorem disconnect_destroys_first_session_witness:
  "wf_state one_session \<and> filter_added one_session \<and> clients one_session = [] @ 3 # [] \<and>
   gc_master_client_get_sender one_session 3 = Some '':1.42'' \<and>
   find_client_by_sender one_session '':1.42'' = Some 3 \<and>
   clients (name_owner_changed_filter (peer_vanished '':1.42'') one_session) = [] \<and>
   client_objs (name_owner_changed_filter (peer_vanished '':1.42'') one_session) 3 = None \<and>
   registered (name_owner_changed_filter (peer_vanished '':1.42'') one_session) 3 = None \<and>
   providers (name_owner_changed_filter (peer_vanished '':1.42'') one_session) = []"
proof -
  have fa: "filter_added one_session" and cl: "clients one_session = [] @ 3 # []"
    and sn: "gc_master_client_get_sender one_session 3 = Some '':1.42''"
    by (simp_all add: one_session_eq started_eq gc_master_client_get_sender_def)
  have ne: "'':1.42'' \<noteq> []" by simp
  have nw: "\<forall>x \<in> set []. gc_master_client_get_sender one_session x \<noteq> Some '':1.42''"
    by simp
  from disconnect_destroys_first_session [OF wf_one_session fa ne cl nw sn]
    wf_one_session fa cl sn
  show ?thesis by simp
qed

lemma after_first_notice_eq:
  "after_first_notice =
     two_sessions_one_peer
       \<lparr>clients := [3],
        printed := printed two_sessions_one_peer @ [Print_client_disconnected '':1.42''],
        registered := [3 \<mapsto> ''/org/freedesktop/Geoclue/Master/client0''],
        client_objs := [3 \<mapsto> \<lparr>client_ref_count = 1, sender = Some '':1.42'',
          object_path = Some ''/org/freedesktop/Geoclue/Master/client0'', weak_notify = True\<rparr>]\<rparr>"
proof -
  have fa: "filter_added two_sessions_one_peer"
    by (simp add: two_sessions_one_peer_eq started_eq)
  have found: "find_client_by_sender two_sessions_one_peer '':1.42'' = Some 4"
    by (simp add: two_sessions_one_peer_eq started_eq find_client_by_sender_def
          gc_master_client_get_sender_def)
  have ne: "'':1.42'' \<noteq> []" by simp
  show ?thesis
    unfolding after_first_notice_def
    by (subst filter_vanished_found [OF wf_two_sessions_one_peer fa ne found])
       (simp add: two_sessions_one_peer_eq started_eq client_destroyed_cases fun_upd_twist)
qed

text \<open>
  The claim as written fails for a peer that has opened two sessions: the notification
  destroys the one created last, and the older one stays tracked, exported and alive.
\<close>

theorem disconnect_destroys_every_session_counterexample:
  "wf_state two_sessions_one_peer \<and> filter_added two_sessions_one_peer \<and>
   clients two_sessions_one_peer = [4, 3] \<and>
   gc_master_client_get_sender two_sessions_one_peer 3 = Some '':1.42'' \<and>
   clients (name_owner_changed_filter (peer_vanished '':1.42'') two_sessions_one_peer) = [3] \<and>
   registered (name_owner_changed_filter (peer_vanished '':1.42'') two_sessions_one_peer) 3 =
     Some ''/org/freedesktop/Geoclue/Master/client0'' \<and>
   gc_master_client_get_sender
     (name_owner_changed_filter (peer_vanished '':1.42'') two_sessions_one_peer) 3 =
     Some '':1.42''"
  using wf_two_sessions_one_peer
  by (simp add: after_first_notice_def [symmetric] after_first_notice_eq)
     (simp add: two_sessions_one_peer_eq started_eq gc_master_client_get_sender_def)

lemma at_most_one_match:
  assumes "length (filter P l) \<le> 1" and "c \<in> set l" and "P c" and "x \<in> set l" and "P x"
  shows "x = c"
proof (rule ccontr)
  assume "x \<noteq> c"
  then have "card {x, c} = 2" by simp
  moreover from assms have "{x, c} \<subseteq> set (filter P l)" by simp
  then have "card {x, c} \<le> card (set (filter P l))"
    by (intro card_mono) simp_all
  moreover have "card (set (filter P l)) \<le> length (filter P l)"
    by (rule card_length)
  ultimately show False using assms(1) by simp
qed

text \<open>
  C5, as amended. Let the filter be installed and the state be well-formed, and let at most
  one tracked session have the requester identity S. After the notification that S has
  left the bus has been delivered once, the lookup for S finds nothing, and delivering the
  same notification again leaves the whole state as it is: no session is destroyed, and
  the tracked sessions and the registry are unchanged.
\<close>

theorem repeated_notification_noop:
  assumes "wf_state st" and "filter_added st" and "name \<noteq> []"
    and "length (filter (\<lambda>x. gc_master_client_get_sender st x = Some name) (clients st)) \<le> 1"
  shows "find_client_by_sender (name_owner_changed_filter (peer_vanished name) st) name = None \<and>
         name_owner_changed_filter (peer_vanished name)
           (name_owner_changed_filter (peer_vanished name) st) =
         name_owner_changed_filter (peer_vanished name) st"
proof -
  let ?st' = "name_owner_changed_filter (peer_vanished name) st"
  have none: "find_client_by_sender ?st' name = None"
  proof (cases "find_client_by_sender st name")
    case None
    then show ?thesis by (simp add: filter_vanished_unknown)
  next
    case (Some c)
    note eq = filter_vanished_found [OF assms(1-3) Some]
    from Some have c: "c \<in> set (clients st)" "gc_master_client_get_sender st c = Some name"
      by (auto simp: find_client_by_sender_def dest: find_client_loop_Some)
    from assms(1) have d: "distinct (clients st)"
      by (simp add: wf_state_def clients_ok_def)
    have "gc_master_client_get_sender ?st' x \<noteq> Some name"
      if x: "x \<in> set (remove1 c (clients st))" for x
    proof -
      from x d have xc: "x \<noteq> c" and xs: "x \<in> set (clients st)" by auto
      from xc have same: "gc_master_client_get_sender ?st' x = gc_master_client_get_sender st x"
        by (simp add: eq gc_master_client_get_sender_def)
      from at_most_one_match [OF assms(4) c xs] xc
      have "gc_master_client_get_sender st x \<noteq> Some name" by blast
      with same show ?thesis by simp
    qed
    then show ?thesis
      by (simp add: find_client_by_sender_def find_client_loop_None eq)
  qed
  then show ?thesis by (simp add: filter_vanished_unknown)
qed

theorem repeated_notification_noop_witness:
  "wf_state one_session \<and> filter_added one_session \<and>
   filter (\<lambda>x. gc_master_client_get_sender one_session x = Some '':1.42'') (clients one_session)
     = [3] \<and>
   clients (name_owner_changed_filter (peer_vanished '':1.42'') one_session) = [] \<and>
   find_client_by_sender (name_owner_changed_filter (peer_vanished '':1.42'') one_session)
     '':1.42'' = None \<and>
   name_owner_changed_filter (peer_vanished '':1.42'')
     (name_owner_changed_filter (peer_vanished '':1.42'') one_session) =
   name_owner_changed_filter (peer_vanished '':1.42'') one_session"
proof -
  have fa: "filter_added one_session"
    and one: "filter (\<lambda>x. gc_master_client_get_sender one_session x = Some '':1.42'')
                (clients one_session) = [3]"
    by (simp_all add: one_session_eq started_eq gc_master_client_get_sender_def)
  have ne: "'':1.42'' \<noteq> []" by simp
  have le: "length (filter (\<lambda>x. gc_master_client_get_sender one_session x = Some '':1.42'')
                (clients one_session)) \<le> 1"
    by (simp add: one)
  have found: "find_client_by_sender one_session '':1.42'' = Some 3"
    by (simp add: one_session_eq started_eq find_client_by_sender_def
          gc_master_client_get_sender_def)
  have gone: "clients (name_owner_changed_filter (peer_vanished '':1.42'') one_session) = []"
    by (subst filter_vanished_found [OF wf_one_session fa ne found])
       (simp add: one_session_eq)
  from repeated_notification_noop [OF wf_one_session fa ne le] wf_one_session fa one gone
  show ?thesis by simp
qed

text \<open>
  The claim as written fails for a peer that has opened two sessions: after the first
  delivery the lookup still finds the older session, and the second delivery destroys it
  and, as it was the last one, releases the registry.
\<close>

theorem repeated_notification_counterexample:
  "wf_state two_sessions_one_peer \<and> filter_added two_sessions_one_peer \<and>
   find_client_by_sender
     (name_owner_changed_filter (peer_vanished '':1.42'') two_sessions_one_peer) '':1.42'' =
     Some 3 \<and>
   clients (name_owner_changed_filter (peer_vanished '':1.42'') two_sessions_one_peer) = [3] \<and>
   providers (name_owner_changed_filter (peer_vanished '':1.42'') two_sessions_one_peer) =
     [2, 1, 0] \<and>
   clients (name_owner_changed_filter (peer_vanished '':1.42'')
     (name_owner_changed_filter (peer_vanished '':1.42'') two_sessions_one_peer)) = [] \<and>
   providers (name_owner_changed_filter (peer_vanished '':1.42'')
     (name_owner_changed_filter (peer_vanished '':1.42'') two_sessions_one_peer)) = []"
proof -
  have fa2: "filter_added two_sessions_one_peer"
    by (simp add: two_sessions_one_peer_eq started_eq)
  have wf: "wf_state after_first_notice"
    unfolding after_first_notice_def by (intro wf_filter wf_two_sessions_one_peer)
  have fa: "filter_added after_first_notice"
    by (simp add: after_first_notice_eq two_sessions_one_peer_eq started_eq)
  have found: "find_client_by_sender after_first_notice '':1.42'' = Some 3"
    by (simp add: after_first_notice_eq two_sessions_one_peer_eq started_eq
          find_client_by_sender_def gc_master_client_get_sender_def)
  have ne: "'':1.42'' \<noteq> []" by simp
  have first: "clients after_first_notice = [3]" "providers after_first_notice = [2, 1, 0]"
    by (simp_all add: after_first_notice_eq two_sessions_one_peer_eq started_eq)
  have second: "clients (name_owner_changed_filter (peer_vanished '':1.42'') after_first_notice) = []"
    "providers (name_owner_changed_filter (peer_vanished '':1.42'') after_first_notice) = []"
    by (subst filter_vanished_found [OF wf fa ne found],
        simp add: first client_destroyed_cases del: clients_client_destroyed)+
  from wf_two_sessions_one_peer fa2 found first second show ?thesis
    by (simp add: after_first_notice_def)
qed

section \<open>Loading the providers\<close>

lemma load_providers_loop_step:
  "load_providers_loop env (f # rest) st =
     load_providers_loop env rest
       (if has_provider_extension f
        then gc_master_add_new_provider env (g_build_filename (GEOCLUE_PROVIDERS_DIR env) f)
               (emit (Print_file f) st)
        else emit Print_ignored (emit (Print_file f) st))"
  by (auto simp: has_provider_extension_def Let_def load_providers_loop.simps(2))

declare load_providers_loop.simps(2) [simp del]

lemma is_warning_simps [simp]:
  "is_warning (Print_file f) = False"
  "is_warning Print_ignored = False"
  "is_warning Print_no_providers_found = False"
  "is_warning Print_found_providers = False"
  "is_warning (Warn_loading_failed f) = True"
  by (simp_all add: is_warning_def)

lemma loaded_attrs_Nil [simp]: "loaded_attrs env conn [] = []"
  by (simp add: loaded_attrs_def provider_files_def)

lemma failed_files_Nil [simp]: "failed_files env conn [] = []"
  by (simp add: failed_files_def provider_files_def)

lemma loaded_attrs_skip [simp]:
  "\<not> has_provider_extension f \<Longrightarrow> loaded_attrs env conn (f # rest) = loaded_attrs env conn rest"
  by (simp add: loaded_attrs_def provider_files_def)

lemma failed_files_skip [simp]:
  "\<not> has_provider_extension f \<Longrightarrow> failed_files env conn (f # rest) = failed_files env conn rest"
  by (simp add: failed_files_def provider_files_def)

lemma loaded_attrs_fail [simp]:
  "has_provider_extension f \<Longrightarrow>
   gc_master_provider_new env (g_build_filename (GEOCLUE_PROVIDERS_DIR env) f) conn = None \<Longrightarrow>
     loaded_attrs env conn (f # rest) = loaded_attrs env conn rest"
  by (simp add: loaded_attrs_def provider_files_def)

lemma failed_files_fail [simp]:
  "has_provider_extension f \<Longrightarrow>
   gc_master_provider_new env (g_build_filename (GEOCLUE_PROVIDERS_DIR env) f) conn = None \<Longrightarrow>
     failed_files env conn (f # rest) =
       g_build_filename (GEOCLUE_PROVIDERS_DIR env) f # failed_files env conn rest"
  by (simp add: failed_files_def provider_files_def)

lemma loaded_attrs_ok [simp]:
  "has_provider_extension f \<Longrightarrow>
   gc_master_provider_new env (g_build_filename (GEOCLUE_PROVIDERS_DIR env) f) conn = Some a \<Longrightarrow>
     loaded_attrs env conn (f # rest) = a # loaded_attrs env conn rest"
  by (simp add: loaded_attrs_def provider_files_def)

lemma failed_files_ok [simp]:
  "has_provider_extension f \<Longrightarrow>
   gc_master_provider_new env (g_build_filename (GEOCLUE_PROVIDERS_DIR env) f) conn = Some a \<Longrightarrow>
     failed_files env conn (f # rest) = failed_files env conn rest"
  by (simp add: failed_files_def provider_files_def)

lemma loaded_or_failed:
  "length (loaded_attrs env conn names) + length (failed_files env conn names) =
     length (provider_files env names)"
proof (induction names)
  case Nil
  show ?case by (simp add: provider_files_def)
next
  case (Cons f rest)
  show ?case
  proof (cases "has_provider_extension f")
    case False
    with Cons show ?thesis by (simp add: provider_files_def)
  next
    case True
    with Cons show ?thesis
      by (cases "gc_master_provider_new env (g_build_filename (GEOCLUE_PROVIDERS_DIR env) f) conn")
         (simp_all add: provider_files_def)
  qed
qed

lemma emit_fields [simp]:
  "providers (emit e st) = providers st"
  "clients (emit e st) = clients st"
  "connectivity (emit e st) = connectivity st"
  "next_ptr (emit e st) = next_ptr st"
  "provider_objs (emit e st) = provider_objs st"
  "printed (emit e st) = printed st @ [e]"
  by (simp_all add: emit_def)

lemma add_new_provider_None:
  "gc_master_provider_new env f (connectivity st) = None \<Longrightarrow>
     gc_master_add_new_provider env f st = emit (Warn_loading_failed f) st"
  by (simp add: gc_master_add_new_provider_def)

lemma add_new_provider_Some:
  "gc_master_provider_new env f (connectivity st) = Some a \<Longrightarrow>
     gc_master_add_new_provider env f st =
       st\<lparr>provider_objs := (provider_objs st)(next_ptr st \<mapsto> \<lparr>provider_ref_count = 1, attrs = a\<rparr>),
          next_ptr := Suc (next_ptr st),
          providers := next_ptr st # providers st\<rparr>"
  by (simp add: gc_master_add_new_provider_def Let_def)

text \<open>The three ways the loop body can go for one file.\<close>

lemma load_loop_cases [case_names ignored failed loaded]:
  assumes "\<not> has_provider_extension f \<Longrightarrow>
             load_providers_loop env (f # rest) st =
               load_providers_loop env rest (emit Print_ignored (emit (Print_file f) st)) \<Longrightarrow> P"
    and "has_provider_extension f \<Longrightarrow>
         gc_master_provider_new env (g_build_filename (GEOCLUE_PROVIDERS_DIR env) f)
           (connectivity st) = None \<Longrightarrow>
         load_providers_loop env (f # rest) st =
           load_providers_loop env rest
             (emit (Warn_loading_failed (g_build_filename (GEOCLUE_PROVIDERS_DIR env) f))
                (emit (Print_file f) st)) \<Longrightarrow> P"
    and "\<And>a. has_provider_extension f \<Longrightarrow>
         gc_master_provider_new env (g_build_filename (GEOCLUE_PROVIDERS_DIR env) f)
           (connectivity st) = Some a \<Longrightarrow>
         load_providers_loop env (f # rest) st =
           load_providers_loop env rest
             ((emit (Print_file f) st)
                \<lparr>provider_objs := (provider_objs st)(next_ptr st \<mapsto>
                     \<lparr>provider_ref_count = 1, attrs = a\<rparr>),
                 next_ptr := Suc (next_ptr st),
                 providers := next_ptr st # providers st\<rparr>) \<Longrightarrow> P"
  shows P
proof (cases "has_provider_extension f")
  case False
  then show ?thesis by (intro assms(1)) (simp_all add: load_providers_loop_step)
next
  case True
  show ?thesis
  proof (cases "gc_master_provider_new env (g_build_filename (GEOCLUE_PROVIDERS_DIR env) f)
                  (connectivity st)")
    case None
    with True show ?thesis
      by (intro assms(2)) (simp_all add: load_providers_loop_step add_new_provider_None
           )
  next
    case (Some a)
    with True show ?thesis
      by (intro assms(3) [of a]) (simp_all add: load_providers_loop_step add_new_provider_Some
           )
  qed
qed

lemma load_loop_connectivity:
  "connectivity (load_providers_loop env names st) = connectivity st"
proof (induction names arbitrary: st)
  case Nil
  show ?case by simp
next
  case (Cons f rest)
  show ?case
    by (cases rule: load_loop_cases [where f = f and env = env and rest = rest and st = st]) (simp_all add: Cons.IH)
qed

lemma load_loop_clients:
  "clients (load_providers_loop env names st) = clients st"
proof (induction names arbitrary: st)
  case Nil
  show ?case by simp
next
  case (Cons f rest)
  show ?case
    by (cases rule: load_loop_cases [where f = f and env = env and rest = rest and st = st]) (simp_all add: Cons.IH)
qed

lemma load_loop_next_ptr:
  "next_ptr (load_providers_loop env names st) =
     next_ptr st + length (loaded_attrs env (connectivity st) names)"
proof (induction names arbitrary: st)
  case Nil
  show ?case by simp
next
  case (Cons f rest)
  show ?case
    by (cases rule: load_loop_cases [where f = f and env = env and rest = rest and st = st]) (simp_all add: Cons.IH)
qed

lemma load_loop_providers:
  "providers (load_providers_loop env names st) =
     rev [next_ptr st ..< next_ptr st + length (loaded_attrs env (connectivity st) names)]
       @ providers st"
proof (induction names arbitrary: st)
  case Nil
  show ?case by simp
next
  case (Cons f rest)
  show ?case
  proof (cases rule: load_loop_cases [where f = f and env = env and rest = rest and st = st])
    case ignored
    then show ?thesis by (simp add: Cons.IH)
  next
    case failed
    then show ?thesis by (simp add: Cons.IH)
  next
    case (loaded a)
    then show ?thesis by (simp add: Cons.IH upt_conv_Cons del: upt_Suc)
  qed
qed

lemma load_loop_warnings:
  "filter is_warning (printed (load_providers_loop env names st)) =
     filter is_warning (printed st) @
       map Warn_loading_failed (failed_files env (connectivity st) names)"
proof (induction names arbitrary: st)
  case Nil
  show ?case by simp
next
  case (Cons f rest)
  show ?case
    by (cases rule: load_loop_cases [where f = f and env = env and rest = rest and st = st])
       (simp_all add: Cons.IH)
qed

lemma load_loop_ignored:
  "length (filter (\<lambda>e. e = Print_ignored) (printed (load_providers_loop env names st))) =
     length (filter (\<lambda>e. e = Print_ignored) (printed st)) +
     length (filter (\<lambda>f. \<not> has_provider_extension f) names)"
proof (induction names arbitrary: st)
  case Nil
  show ?case by simp
next
  case (Cons f rest)
  show ?case
    by (cases rule: load_loop_cases [where f = f and env = env and rest = rest and st = st])
       (simp_all add: Cons.IH)
qed

lemma load_loop_below:
  "p < next_ptr st \<Longrightarrow>
     provider_objs (load_providers_loop env names st) p = provider_objs st p"
proof (induction names arbitrary: st)
  case Nil
  show ?case by simp
next
  case (Cons f rest)
  show ?case
    by (cases rule: load_loop_cases [where f = f and env = env and rest = rest and st = st])
       (use Cons.prems in \<open>simp_all add: Cons.IH\<close>)
qed

lemma load_loop_attrs:
  "map (provider_attrs_at (load_providers_loop env names st))
       [next_ptr st ..< next_ptr st + length (loaded_attrs env (connectivity st) names)] =
     map Some (loaded_attrs env (connectivity st) names)"
proof (induction names arbitrary: st)
  case Nil
  show ?case by simp
next
  case (Cons f rest)
  show ?case
  proof (cases rule: load_loop_cases [where f = f and env = env and rest = rest and st = st])
    case ignored
    then show ?thesis using Cons.IH [of "emit Print_ignored (emit (Print_file f) st)"] by simp
  next
    case failed
    then show ?thesis
      using Cons.IH [of "emit (Warn_loading_failed (g_build_filename (GEOCLUE_PROVIDERS_DIR env) f))
                (emit (Print_file f) st)"] by simp
  next
    case (loaded a)
    let ?st1 = "(emit (Print_file f) st)
                \<lparr>provider_objs := (provider_objs st)(next_ptr st \<mapsto>
                     \<lparr>provider_ref_count = 1, attrs = a\<rparr>),
                 next_ptr := Suc (next_ptr st),
                 providers := next_ptr st # providers st\<rparr>"
    have "provider_objs (load_providers_loop env rest ?st1) (next_ptr st) =
            provider_objs ?st1 (next_ptr st)"
      by (rule load_loop_below) simp
    then have first: "provider_attrs_at (load_providers_loop env rest ?st1) (next_ptr st) = Some a"
      by (simp add: provider_attrs_at_def)
    from loaded first Cons.IH [of ?st1] show ?thesis
      by (simp add: upt_conv_Cons del: upt_Suc)
  qed
qed

text \<open>
  C8. When the provider directory can be read, \<open>gc_master_load_providers\<close> goes through
  all its files. A file whose name does not end in the provider extension is ignored. Each
  other file is handed to \<open>gc_master_provider_new\<close>; when that fails, a warning naming the
  file is logged and the scan goes on. The providers registered are exactly those that
  were set up, one new object each with the attributes obtained, in front of the providers
  there before; the warnings logged are exactly those for the files that failed; and
  every provider file is either registered or warned about.
\<close>

theorem load_skips_failures:
  assumes "g_dir_open env = Some names"
  shows "providers (gc_master_load_providers env st) =
           rev [next_ptr st ..< next_ptr st + length (loaded_attrs env (connectivity st) names)]
             @ providers st \<and>
         map (provider_attrs_at (gc_master_load_providers env st))
             [next_ptr st ..< next_ptr st + length (loaded_attrs env (connectivity st) names)] =
           map Some (loaded_attrs env (connectivity st) names) \<and>
         filter is_warning (printed (gc_master_load_providers env st)) =
           filter is_warning (printed st) @
             map Warn_loading_failed (failed_files env (connectivity st) names) \<and>
         length (filter (\<lambda>e. e = Print_ignored) (printed (gc_master_load_providers env st))) =
           length (filter (\<lambda>e. e = Print_ignored) (printed st)) +
           length (filter (\<lambda>f. \<not> has_provider_extension f) names) \<and>
         length (loaded_attrs env (connectivity st) names) +
           length (failed_files env (connectivity st) names) =
           length (provider_files env names)"
proof -
  let ?st0 = "emit (if names = [] then Print_no_providers_found else Print_found_providers) st"
  have eq: "gc_master_load_providers env st = load_providers_loop env names ?st0"
    using assms by (simp add: gc_master_load_providers_def)
  have "providers (load_providers_loop env names ?st0) =
           rev [next_ptr st ..< next_ptr st + length (loaded_attrs env (connectivity st) names)]
             @ providers st"
    using load_loop_providers [of env names ?st0] by simp
  moreover have "map (provider_attrs_at (load_providers_loop env names ?st0))
             [next_ptr st ..< next_ptr st + length (loaded_attrs env (connectivity st) names)] =
           map Some (loaded_attrs env (connectivity st) names)"
    using load_loop_attrs [of env names ?st0] by simp
  moreover have "filter is_warning (printed (load_providers_loop env names ?st0)) =
           filter is_warning (printed st) @
             map Warn_loading_failed (failed_files env (connectivity st) names)"
    using load_loop_warnings [of env names ?st0] by simp
  moreover have
    "length (filter (\<lambda>e. e = Print_ignored) (printed (load_providers_loop env names ?st0))) =
           length (filter (\<lambda>e. e = Print_ignored) (printed st)) +
           length (filter (\<lambda>f. \<not> has_provider_extension f) names)"
    using load_loop_ignored [of env names ?st0] by simp
  ultimately show ?thesis
    by (simp only: eq loaded_or_failed simp_thms)
qed

lemma started_load: "started = gc_master_load_providers example_env before_load"
  by (simp add: started_def gc_master_init_def example_env_def before_load_def)

theorem load_skips_failures_witness:
  "g_dir_open example_env =
     Some [''gps.provider'', ''README'', ''bad.provider'', ''net.provider'', ''cell.provider''] \<and>
   providers started = [2, 1, 0] \<and>
   map (provider_attrs_at started) [0, 1, 2] = [Some gps_attrs, Some net_attrs, Some cell_attrs] \<and>
   filter is_warning (printed started) = [Warn_loading_failed ''/p/bad.provider''] \<and>
   length (filter (\<lambda>e. e = Print_ignored) (printed started)) = 1"
proof -
  let ?names = "[''gps.provider'', ''README'', ''bad.provider'', ''net.provider'',
                 ''cell.provider'']"
  have dir: "g_dir_open example_env = Some ?names"
    by (simp add: example_env_def)
  have ext: "has_provider_extension ''gps.provider''" "\<not> has_provider_extension ''README''"
    "has_provider_extension ''bad.provider''" "has_provider_extension ''net.provider''"
    "has_provider_extension ''cell.provider''"
    by (simp_all add: has_provider_extension_def PROVIDER_EXTENSION_def)
  have files: "provider_files example_env ?names =
                 [''/p/gps.provider'', ''/p/bad.provider'', ''/p/net.provider'',
                  ''/p/cell.provider'']"
    by (simp add: provider_files_def ext) (simp add: example_env_def g_build_filename_def)
  have new: "gc_master_provider_new example_env = example_provider_new"
    by (simp add: example_env_def)
  have loaded: "loaded_attrs example_env (connectivity before_load) ?names =
                  [gps_attrs, net_attrs, cell_attrs]"
    by (simp add: loaded_attrs_def files new example_provider_new_def)
  have failed: "failed_files example_env (connectivity before_load) ?names =
                  [''/p/bad.provider'']"
    by (simp add: failed_files_def files new example_provider_new_def)
  have before: "next_ptr before_load = 0" "providers before_load = []"
    "printed before_load = []"
    by (simp_all add: before_load_def initial_state_def)
  have upt: "[0..<3] = [0, 1, 2::nat]"
    by (simp add: upt_conv_Cons del: upt_Suc)
  from load_skips_failures [OF dir, of before_load] dir
  show ?thesis
    by (simp add: started_load [symmetric] loaded failed before ext upt)
       (simp add: numeral_2_eq_2)
qed

end
